theory Spec2Isabelle
  imports Main "HOL-Library.AList" "HOL-Library.Char_ord" "HOL-Library.List_Lexorder"
    "HOL-Library.Multiset"
begin

section \<open>Python values, exceptions and builtins\<close>

text \<open>
  The decoder of \<^verbatim>\<open>discord/audit_logs.py\<close> works on loosely typed JSON values and
  produces Python objects. Both live in one universe of values. Objects built by
  collaborators that are not part of the module (\<^verbatim>\<open>Permissions\<close>, \<^verbatim>\<open>Colour\<close>,
  \<^verbatim>\<open>Asset\<close>, \<^verbatim>\<open>enums.try_enum\<close>, \<^verbatim>\<open>AutoModAction.from_dict\<close>,
  \<^verbatim>\<open>ScheduledEventLocation\<close>, ...) are recorded as \<open>VExt\<close>: the name of the
  constructor and the arguments the module passes to it; such a constructor is taken to
  return. Objects found in a cache are \<open>VEntity\<close>: their kind and an opaque handle.
  Strings are ASCII (one \<open>char\<close> for one character); floating-point numbers do not occur
  in the payloads and are left out.
\<close>

datatype error = KeyError | ValueError | TypeError | AttributeError

datatype kind =
  Channel | Role | Member | User | Guild | Emoji | Sticker | Thread | StageInstance
  | ScheduledEvent

datatype pyval =
    VNone
  | VBool bool
  | VInt int
  | VStr string
  | VList "pyval list"
  | VDict "(string \<times> pyval) list"
  | VTuple "pyval list"
  | VEntity kind nat
  | VObject int "pyval option"
  | VExt string "pyval list"
  | VProxy "(string \<times> pyval) list"
  | VInvite "(string \<times> pyval) list" pyval "pyval option"

text \<open>
  \<open>VObject i n\<close> is \<^verbatim>\<open>Object(id=i)\<close>; \<open>n\<close> is the \<^verbatim>\<open>name\<close> attribute when the module
  assigns one. \<open>VProxy\<close> is an instance of the ad hoc \<^verbatim>\<open>_AuditLogProxy\<close> class with its
  attributes. \<open>VInvite payload channel inviter\<close> is \<^verbatim>\<open>Invite(state, data=payload,
  guild, channel)\<close>, with \<open>inviter\<close> the value the module assigns to \<^verbatim>\<open>obj.inviter\<close>
  afterwards (\<open>None\<close> when it assigns nothing).
\<close>

definition seq :: "error + 'a \<Rightarrow> ('a \<Rightarrow> error + 'b) \<Rightarrow> error + 'b" where
  "seq m f = (case m of Inl e \<Rightarrow> Inl e | Inr v \<Rightarrow> f v)"

fun map_res :: "('a \<Rightarrow> error + 'b) \<Rightarrow> 'a list \<Rightarrow> error + 'b list" where
  "map_res f [] = Inr []"
| "map_res f (x # xs) =
     (case f x of Inl e \<Rightarrow> Inl e
      | Inr y \<Rightarrow> (case map_res f xs of Inl e \<Rightarrow> Inl e | Inr ys \<Rightarrow> Inr (y # ys)))"

fun truthy :: "pyval \<Rightarrow> bool" where
  "truthy VNone = False"
| "truthy (VBool b) = b"
| "truthy (VInt i) = (i \<noteq> 0)"
| "truthy (VStr s) = (s \<noteq> [])"
| "truthy (VList xs) = (xs \<noteq> [])"
| "truthy (VDict kvs) = (kvs \<noteq> [])"
| "truthy (VTuple xs) = (xs \<noteq> [])"
| "truthy _ = True"

subsection \<open>\<^verbatim>\<open>int(x)\<close>\<close>

definition is_space :: "char \<Rightarrow> bool" where
  "is_space c = (let n = (of_char c :: nat) in (9 \<le> n \<and> n \<le> 13) \<or> (28 \<le> n \<and> n \<le> 32))"

definition is_digit :: "char \<Rightarrow> bool" where
  "is_digit c = (let n = (of_char c :: nat) in 48 \<le> n \<and> n \<le> 57)"

definition digit_val :: "char \<Rightarrow> int" where
  "digit_val c = int (of_char c) - 48"

fun parse_digits :: "string \<Rightarrow> int \<Rightarrow> int option" where
  "parse_digits [] acc = Some acc"
| "parse_digits (c # cs) acc =
     (if is_digit c then parse_digits cs (acc * 10 + digit_val c)
      else if c = CHR ''_'' then
        (case cs of [] \<Rightarrow> None
         | d # ds \<Rightarrow> if is_digit d then parse_digits cs acc else None)
      else None)"

definition strip :: "string \<Rightarrow> string" where
  "strip s = rev (dropWhile is_space (rev (dropWhile is_space s)))"

definition int_of_str :: "string \<Rightarrow> int option" where
  "int_of_str s =
     (let t = strip s;
          (sign, r) = (case t of [] \<Rightarrow> (1, t)
                       | c # cs \<Rightarrow> if c = CHR ''-'' then (- 1, cs)
                                   else if c = CHR ''+'' then (1, cs) else (1, t))
      in case r of [] \<Rightarrow> None
         | c # cs \<Rightarrow> if is_digit c \<and> int (length (filter is_digit r)) \<le> 4300
                     then map_option (\<lambda>n. sign * n) (parse_digits r 0)
                     else None)"

text \<open>
  \<^verbatim>\<open>int(x)\<close> on the values that reach it: an integer is itself, a boolean is 0 or 1, a
  string is parsed in base ten (surrounding white space, a sign, single underscores
  between digits, at most 4300 digits, the interpreter's default limit) or raises
  \<^verbatim>\<open>ValueError\<close>; anything else raises \<^verbatim>\<open>TypeError\<close>.
\<close>

fun py_int :: "pyval \<Rightarrow> error + int" where
  "py_int (VInt i) = Inr i"
| "py_int (VBool b) = Inr (if b then 1 else 0)"
| "py_int (VStr s) = (case int_of_str s of None \<Rightarrow> Inl ValueError | Some i \<Rightarrow> Inr i)"
| "py_int _ = Inl TypeError"

subsection \<open>Subscripts, \<^verbatim>\<open>.get\<close>, \<^verbatim>\<open>.items\<close>, iteration\<close>

fun py_getitem :: "pyval \<Rightarrow> string \<Rightarrow> error + pyval" where
  "py_getitem (VDict kvs) k = (case map_of kvs k of None \<Rightarrow> Inl KeyError | Some v \<Rightarrow> Inr v)"
| "py_getitem _ k = Inl TypeError"

fun py_get :: "pyval \<Rightarrow> string \<Rightarrow> error + pyval" where
  "py_get (VDict kvs) k = (case map_of kvs k of None \<Rightarrow> Inr VNone | Some v \<Rightarrow> Inr v)"
| "py_get _ k = Inl AttributeError"

fun py_items :: "pyval \<Rightarrow> error + (string \<times> pyval) list" where
  "py_items (VDict kvs) = Inr kvs"
| "py_items _ = Inl AttributeError"

fun py_iter :: "pyval \<Rightarrow> error + pyval list" where
  "py_iter (VList xs) = Inr xs"
| "py_iter (VTuple xs) = Inr xs"
| "py_iter (VStr s) = Inr (map (\<lambda>c. VStr [c]) s)"
| "py_iter (VDict kvs) = Inr (map (\<lambda>kv. VStr (fst kv)) kvs)"
| "py_iter _ = Inl TypeError"

definition startswith :: "string \<Rightarrow> string \<Rightarrow> bool" where
  "startswith s p = (take (length p) s = p)"

definition endswith :: "string \<Rightarrow> string \<Rightarrow> bool" where
  "endswith s p = (length p \<le> length s \<and> drop (length s - length p) s = p)"

text \<open>\<^verbatim>\<open>s.split("_", 1)[-1]\<close>: what follows the first underscore, or all of \<open>s\<close>.\<close>

definition split_last :: "string \<Rightarrow> string" where
  "split_last s =
     (case dropWhile (\<lambda>c. c \<noteq> CHR ''_'') s of [] \<Rightarrow> s | u # rest \<Rightarrow> rest)"

section \<open>Collaborators\<close>

text \<open>
  The guild, the connection state, the user table and the enumerations are outside the
  module; the module only calls their lookups. They are parameters of the model. A
  lookup returns the handle of the cached object or nothing. Cached objects define
  neither \<^verbatim>\<open>__bool__\<close> nor \<^verbatim>\<open>__len__\<close>, so \<^verbatim>\<open>x or y\<close> on a lookup takes \<open>y\<close> exactly
  when the lookup returned \<^verbatim>\<open>None\<close>.
\<close>

record guild_t =
  guild_id :: int
  get_channel :: "int \<Rightarrow> nat option"
  get_role :: "int \<Rightarrow> nat option"
  get_member :: "int \<Rightarrow> nat option"
  get_stage_instance :: "int \<Rightarrow> nat option"
  get_thread :: "int \<Rightarrow> nat option"
  get_scheduled_event :: "int \<Rightarrow> nat option"

record state_t =
  state_get_guild :: "pyval \<Rightarrow> nat option"
  get_emoji :: "int \<Rightarrow> nat option"
  get_sticker :: "int \<Rightarrow> nat option"

text \<open>
  An action as \<^verbatim>\<open>enums.try_enum(enums.AuditLogAction, ...)\<close> returns it: its name,
  whether it is a member of \<^verbatim>\<open>AuditLogAction\<close> (an unknown ordinal gives a stand-in that
  is not), and the target type the enumeration declares for it.
\<close>

record action_t =
  action_name :: string
  is_member :: bool
  target_type :: "string option"

record change =
  key :: string
  old_value :: "pyval option"
  new_value :: "pyval option"

record payload =
  data_action_type :: pyval
  data_id :: pyval
  data_reason :: "pyval option"
  data_options :: "pyval option"
  data_changes :: "change list option"
  data_user_id :: "pyval option"
  data_target_id :: "pyval option"

record collab =
  the_guild :: guild_t
  the_state :: state_t
  the_users :: "int \<Rightarrow> nat option"
  try_enum_action :: "pyval \<Rightarrow> action_t"
  get_as_snowflake :: "pyval option \<Rightarrow> error + int option"
  external_ordinal :: pyval

text \<open>
  \<open>external_ordinal\<close> is the raw value of \<^verbatim>\<open>enums.ScheduledEventLocationType.external\<close>,
  \<open>try_enum_action\<close> is \<^verbatim>\<open>enums.try_enum(enums.AuditLogAction, _)\<close> and
  \<open>get_as_snowflake\<close> is \<^verbatim>\<open>utils._get_as_snowflake(data, key)\<close> applied to the value under
  the key (\<open>None\<close> when the key is absent); neither is part of the module.

  \<^verbatim>\<open>Object(id=x)\<close> keeps \<^verbatim>\<open>int(x)\<close>.
\<close>

definition Object :: "pyval \<Rightarrow> error + pyval" where
  \<comment> \<open>Modelled from the spec: object.py is not part of the module; the opaque reference
      object carries only the numeric id. A value that is no integer is a \<^verbatim>\<open>TypeError\<close>.\<close>
  "Object x = (case py_int x of Inl e \<Rightarrow> Inl TypeError | Inr i \<Rightarrow> Inr (VObject i None))"

definition try_enum :: "string \<Rightarrow> pyval \<Rightarrow> pyval" where
  \<comment> \<open>Modelled from the spec: enums.py is not part of the module; the lookup is tolerant,
      an unknown ordinal gives a stand-in carrying the raw value, so the result is
      determined by the enumeration and the raw value and never fails (a boolean raw
      value is not identified with the ordinal 0 or 1 here).\<close>
  "try_enum enum data = VExt ''try_enum'' [VStr enum, data]"

section \<open>The entry\<close>

text \<open>
  The attributes of an \<^verbatim>\<open>AuditLogEntry\<close>. \<open>env\<close> holds \<^verbatim>\<open>guild\<close>, \<^verbatim>\<open>_state\<close> and
  \<^verbatim>\<open>_users\<close>; \<open>changes_raw\<close> is \<^verbatim>\<open>_changes\<close>, \<open>None\<close> once the attribute is deleted.
  The four \<open>cached_\<close> fields are the instance slots that \<^verbatim>\<open>utils.cached_property\<close>
  fills: \<open>None\<close> until the property has been computed; the diff objects and the
  \<^verbatim>\<open>AuditLogChanges\<close> object are referred to by their address in the heap.
\<close>

record entry =
  env :: collab
  action :: action_t
  entry_id :: int
  reason :: pyval
  extra :: pyval
  changes_raw :: "change list option"
  user :: pyval
  target_id :: "int option"
  cached_changes :: "nat option"
  cached_before :: "nat option"
  cached_after :: "nat option"
  cached_target :: "pyval option"

definition guild :: "entry \<Rightarrow> guild_t" where
  "guild e = the_guild (env e)"

definition entry_get_member :: "entry \<Rightarrow> int option \<Rightarrow> pyval" where
  \<comment> \<open>\<^verbatim>\<open>self.guild.get_member(user_id) or self._users.get(user_id)\<close>\<close>
  "entry_get_member e user_id =
     (case user_id of None \<Rightarrow> VNone
      | Some i \<Rightarrow>
          (case get_member (guild e) i of Some h \<Rightarrow> VEntity Member h
           | None \<Rightarrow> (case the_users (env e) i of Some h \<Rightarrow> VEntity User h | None \<Rightarrow> VNone)))"

section \<open>The transform functions\<close>

type_synonym transformer = "entry \<Rightarrow> pyval \<Rightarrow> error + pyval"

definition transform_permissions :: transformer where
  "transform_permissions e data = seq (py_int data) (\<lambda>i. Inr (VExt ''Permissions'' [VInt i]))"

definition transform_color :: transformer where
  "transform_color e data = Inr (VExt ''Colour'' [data])"

definition transform_snowflake :: transformer where
  "transform_snowflake e data = seq (py_int data) (\<lambda>i. Inr (VInt i))"

definition transform_channel :: transformer where
  "transform_channel e data =
     (if data = VNone then Inr VNone
      else seq (py_int data) (\<lambda>i.
        case get_channel (guild e) i of Some h \<Rightarrow> Inr (VEntity Channel h)
        | None \<Rightarrow> Object data))"

definition transform_channels :: transformer where
  "transform_channels e data =
     (if data = VNone then Inr VNone
      else seq (py_iter data) (\<lambda>cs. seq (map_res (transform_channel e) cs) (\<lambda>r. Inr (VList r))))"

definition transform_roles :: transformer where
  "transform_roles e data =
     (if data = VNone then Inr VNone
      else seq (py_iter data) (\<lambda>rs.
        seq (map_res (\<lambda>r. seq (py_int r) (\<lambda>i.
               case get_role (guild e) i of Some h \<Rightarrow> Inr (VEntity Role h)
               | None \<Rightarrow> Object r)) rs)
            (\<lambda>r. Inr (VList r))))"

definition transform_member_id :: transformer where
  "transform_member_id e data =
     (if data = VNone then Inr VNone
      else seq (py_int data) (\<lambda>i. Inr (entry_get_member e (Some i))))"

definition transform_guild_id :: transformer where
  "transform_guild_id e data =
     (if data = VNone then Inr VNone
      else (case state_get_guild (the_state (env e)) data of
              Some h \<Rightarrow> Inr (VEntity Guild h) | None \<Rightarrow> Inr VNone))"

definition py_eq_int :: "pyval \<Rightarrow> int \<Rightarrow> bool" where
  \<comment> \<open>\<^verbatim>\<open>x == n\<close> for an integer literal: \<^verbatim>\<open>False == 0\<close> and \<^verbatim>\<open>True == 1\<close> hold in Python.\<close>
  "py_eq_int x n = (x = VInt n \<or> (n = 0 \<and> x = VBool False) \<or> (n = 1 \<and> x = VBool True))"

definition overwrite_elem :: "entry \<Rightarrow> pyval \<Rightarrow> error + pyval" where
  \<comment> \<open>the body of the loop of \<^verbatim>\<open>_transform_overwrites\<close>\<close>
  "overwrite_elem e elem =
     seq (py_getitem elem ''allow'') (\<lambda>a. seq (py_int a) (\<lambda>allow.
     seq (py_getitem elem ''deny'') (\<lambda>d. seq (py_int d) (\<lambda>deny.
     seq (py_getitem elem ''type'') (\<lambda>ow_type.
     seq (py_getitem elem ''id'') (\<lambda>i. seq (py_int i) (\<lambda>ow_id.
       let ow = VExt ''PermissionOverwrite.from_pair''
                  [VExt ''Permissions'' [VInt allow], VExt ''Permissions'' [VInt deny]];
           target =
             (if py_eq_int ow_type 0 then
                (case get_role (guild e) ow_id of Some h \<Rightarrow> VEntity Role h | None \<Rightarrow> VNone)
              else if py_eq_int ow_type 1 then entry_get_member e (Some ow_id)
              else VNone)
       in seq (if target = VNone then Object (VInt ow_id) else Inr target)
            (\<lambda>target. Inr (VTuple [target, ow])))))))))"

definition transform_overwrites :: transformer where
  "transform_overwrites e data =
     seq (py_iter data) (\<lambda>elems. seq (map_res (overwrite_elem e) elems) (\<lambda>r. Inr (VList r)))"

definition transform_icon :: transformer where
  "transform_icon e data =
     (if data = VNone then Inr VNone
      else Inr (VExt ''Asset._from_guild_icon'' [VInt (guild_id (guild e)), data]))"

definition opt_int :: "int option \<Rightarrow> pyval" where
  "opt_int x = (case x of None \<Rightarrow> VNone | Some i \<Rightarrow> VInt i)"

definition transform_avatar :: transformer where
  "transform_avatar e data =
     (if data = VNone then Inr VNone
      else Inr (VExt ''Asset._from_avatar'' [opt_int (target_id e), data]))"

definition transform_scheduled_event_image :: transformer where
  "transform_scheduled_event_image e data =
     (if data = VNone then Inr VNone
      else Inr (VExt ''Asset._from_scheduled_event_image'' [opt_int (target_id e), data]))"

definition guild_hash_transformer :: "string \<Rightarrow> transformer" where
  "guild_hash_transformer path e data =
     (if data = VNone then Inr VNone
      else Inr (VExt ''Asset._from_guild_image'' [VInt (guild_id (guild e)), data, VStr path]))"

definition enum_transformer :: "string \<Rightarrow> transformer" where
  "enum_transformer enum e data = Inr (try_enum enum data)"

definition transform_type :: transformer where
  "transform_type e data =
     (if startswith (action_name (action e)) ''sticker_''
      then Inr (try_enum ''StickerType'' data)
      else Inr (try_enum ''ChannelType'' data))"

definition transform_actions :: transformer where
  "transform_actions e data =
     (if data = VNone then Inr VNone
      else seq (py_iter data) (\<lambda>ds.
             Inr (VList (map (\<lambda>d. VExt ''AutoModAction.from_dict'' [d]) ds))))"

definition transform_trigger_metadata :: transformer where
  "transform_trigger_metadata e data =
     (if data = VNone then Inr VNone
      else Inr (VExt ''AutoModTriggerMetadata.from_dict'' [data]))"

definition TRANSFORMERS :: "(string \<times> (string option \<times> transformer option)) list" where
  "TRANSFORMERS =
    [(''verification_level'', (None, Some (enum_transformer ''VerificationLevel''))),
     (''explicit_content_filter'', (None, Some (enum_transformer ''ContentFilter''))),
     (''allow'', (None, Some transform_permissions)),
     (''deny'', (None, Some transform_permissions)),
     (''permissions'', (None, Some transform_permissions)),
     (''id'', (None, Some transform_snowflake)),
     (''color'', (Some ''colour'', Some transform_color)),
     (''owner_id'', (Some ''owner'', Some transform_member_id)),
     (''inviter_id'', (Some ''inviter'', Some transform_member_id)),
     (''channel_id'', (Some ''channel'', Some transform_channel)),
     (''afk_channel_id'', (Some ''afk_channel'', Some transform_channel)),
     (''system_channel_id'', (Some ''system_channel'', Some transform_channel)),
     (''widget_channel_id'', (Some ''widget_channel'', Some transform_channel)),
     (''rules_channel_id'', (Some ''rules_channel'', Some transform_channel)),
     (''public_updates_channel_id'', (Some ''public_updates_channel'', Some transform_channel)),
     (''permission_overwrites'', (Some ''overwrites'', Some transform_overwrites)),
     (''splash_hash'', (Some ''splash'', Some (guild_hash_transformer ''splashes''))),
     (''banner_hash'', (Some ''banner'', Some (guild_hash_transformer ''banners''))),
     (''discovery_splash_hash'',
        (Some ''discovery_splash'', Some (guild_hash_transformer ''discovery-splashes''))),
     (''icon_hash'', (Some ''icon'', Some transform_icon)),
     (''avatar_hash'', (Some ''avatar'', Some transform_avatar)),
     (''rate_limit_per_user'', (Some ''slowmode_delay'', None)),
     (''guild_id'', (Some ''guild'', Some transform_guild_id)),
     (''tags'', (Some ''emoji'', None)),
     (''default_message_notifications'',
        (Some ''default_notifications'', Some (enum_transformer ''NotificationLevel''))),
     (''rtc_region'', (None, Some (enum_transformer ''VoiceRegion''))),
     (''video_quality_mode'', (None, Some (enum_transformer ''VideoQualityMode''))),
     (''privacy_level'', (None, Some (enum_transformer ''StagePrivacyLevel''))),
     (''format_type'', (None, Some (enum_transformer ''StickerFormatType''))),
     (''type'', (None, Some transform_type)),
     (''status'', (None, Some (enum_transformer ''ScheduledEventStatus''))),
     (''entity_type'',
        (Some ''location_type'', Some (enum_transformer ''ScheduledEventLocationType''))),
     (''command_id'', (Some ''command_id'', Some transform_snowflake)),
     (''image_hash'', (Some ''image'', Some transform_scheduled_event_image)),
     (''trigger_type'', (None, Some (enum_transformer ''AutoModTriggerType''))),
     (''event_type'', (None, Some (enum_transformer ''AutoModEventType''))),
     (''actions'', (None, Some transform_actions)),
     (''trigger_metadata'', (None, Some transform_trigger_metadata)),
     (''exempt_roles'', (None, Some transform_roles)),
     (''exempt_channels'', (None, Some transform_channels))]"

section \<open>\<^verbatim>\<open>AuditLogDiff\<close> and \<^verbatim>\<open>AuditLogChanges\<close>\<close>

text \<open>
  An \<^verbatim>\<open>AuditLogDiff\<close> is its \<^verbatim>\<open>__dict__\<close>: the attributes in the order they were first
  set. Setting an attribute that exists replaces its value in place, a new one is added
  at the end.
\<close>

type_synonym bag = "(string \<times> pyval) list"

definition hasattr :: "bag \<Rightarrow> string \<Rightarrow> bool" where
  "hasattr d a = (map_of d a \<noteq> None)"

definition getattr :: "bag \<Rightarrow> string \<Rightarrow> error + pyval" where
  "getattr d a = (case map_of d a of None \<Rightarrow> Inl AttributeError | Some v \<Rightarrow> Inr v)"

definition store :: "bag \<Rightarrow> string \<Rightarrow> pyval \<Rightarrow> bag" where
  \<comment> \<open>an assignment that reaches the instance dictionary\<close>
  "store d a v = AList.update a v d"

definition setattr :: "bag \<Rightarrow> string \<Rightarrow> pyval \<Rightarrow> error + bag" where
  \<comment> \<open>\<^verbatim>\<open>setattr(diff, a, v)\<close> for a name \<open>a\<close> that comes from the data. Three names are
      data descriptors of every plain object: \<^verbatim>\<open>__dict__\<close> replaces the whole dictionary
      and accepts only a dictionary, \<^verbatim>\<open>__class__\<close> accepts only a class and
      \<^verbatim>\<open>__weakref__\<close> is not writable. The assignments of the module to the names it
      writes itself (\<^verbatim>\<open>roles\<close>, \<^verbatim>\<open>trigger_metadata\<close>, \<^verbatim>\<open>color\<close>, \<^verbatim>\<open>expire_behaviour\<close>) are
      \<open>store\<close>.\<close>
  "setattr d a v =
     (if a = ''__dict__'' then (case v of VDict kvs \<Rightarrow> Inr kvs | other \<Rightarrow> Inl TypeError)
      else if a = ''__class__'' then Inl TypeError
      else if a = ''__weakref__'' then Inl AttributeError
      else Inr (store d a v))"

definition set_name :: "pyval \<Rightarrow> pyval \<Rightarrow> pyval" where
  \<comment> \<open>\<^verbatim>\<open>role.name = n\<close> on an \<^verbatim>\<open>Object\<close>\<close>
  "set_name role n = (case role of VObject i old \<Rightarrow> VObject i (Some n) | other \<Rightarrow> other)"

definition role_of_stub :: "entry \<Rightarrow> pyval \<Rightarrow> error + pyval" where
  \<comment> \<open>the body of the loop of \<^verbatim>\<open>_handle_role\<close>\<close>
  "role_of_stub e stub =
     seq (py_getitem stub ''id'') (\<lambda>i. seq (py_int i) (\<lambda>role_id.
       case get_role (guild e) role_id of Some h \<Rightarrow> Inr (VEntity Role h)
       | None \<Rightarrow>
           seq (Object (VInt role_id)) (\<lambda>role.
           seq (py_getitem stub ''name'') (\<lambda>n. Inr (set_name role n)))))"

definition resolve_stubs :: "entry \<Rightarrow> pyval \<Rightarrow> error + pyval list" where
  \<comment> \<open>the loop of \<^verbatim>\<open>_handle_role\<close>: the list \<^verbatim>\<open>data\<close>\<close>
  "resolve_stubs e elem = seq (py_iter elem) (\<lambda>stubs. map_res (role_of_stub e) stubs)"

definition handle_role :: "bag \<Rightarrow> bag \<Rightarrow> entry \<Rightarrow> pyval \<Rightarrow> error + bag \<times> bag" where
  \<comment> \<open>returns the two diffs \<open>(first, second)\<close> as the call leaves them\<close>
  "handle_role first second e elem =
     (let first = (if \<not> hasattr first ''roles'' then store first ''roles'' (VList [])
                   else first)
      in seq (resolve_stubs e elem) (\<lambda>data. Inr (first, store second ''roles'' (VList data))))"

definition handle_trigger_metadata ::
  "bag \<Rightarrow> bag \<Rightarrow> entry \<Rightarrow> pyval \<Rightarrow> string \<Rightarrow> bag \<times> bag" where
  "handle_trigger_metadata first second e elem attr =
     (let first = (if \<not> hasattr first ''trigger_metadata''
                   then store first ''trigger_metadata'' VNone else first);
          k = split_last attr;
          data = VDict [(k, elem)];
          tm = VExt ''AutoModTriggerMetadata.from_dict'' [data]
      in (first, store second ''trigger_metadata'' tm))"

definition resolve :: "string \<Rightarrow> string \<times> transformer option" where
  \<comment> \<open>the lookup in \<^verbatim>\<open>TRANSFORMERS\<close>: the attribute name and the transformer of a key\<close>
  "resolve attr =
     (case map_of TRANSFORMERS attr of None \<Rightarrow> (attr, None)
      | Some (k, transformer) \<Rightarrow>
          (case k of None \<Rightarrow> (attr, transformer)
           | Some k' \<Rightarrow> (if k' \<noteq> [] then k' else attr, transformer)))"

definition side_value :: "entry \<Rightarrow> transformer option \<Rightarrow> pyval option \<Rightarrow> error + pyval" where
  \<comment> \<open>\<^verbatim>\<open>try: v = elem[...] except KeyError: v = None else: if transformer: v = transformer(entry, v)\<close>\<close>
  "side_value e transformer raw =
     (case raw of None \<Rightarrow> Inr VNone
      | Some v \<Rightarrow> (case transformer of None \<Rightarrow> Inr v | Some t \<Rightarrow> t e v))"

definition ScheduledEventLocation :: "pyval \<Rightarrow> pyval" where
  \<comment> \<open>Modelled from the spec: scheduled_events.py is not part of the module; a location
      value-object wrapping the value it is given.\<close>
  "ScheduledEventLocation v = VExt ''ScheduledEventLocation'' [v]"

definition external :: "entry \<Rightarrow> pyval" where
  \<comment> \<open>\<^verbatim>\<open>enums.ScheduledEventLocationType.external\<close>\<close>
  "external e = try_enum ''ScheduledEventLocationType'' (external_ordinal (env e))"

definition locate :: "entry \<Rightarrow> bag \<Rightarrow> string \<Rightarrow> pyval \<Rightarrow> pyval" where
  \<comment> \<open>the \<^verbatim>\<open>location\<close> special case, on the diff \<open>d\<close> of the side being written\<close>
  "locate e d attr v =
     (if attr = ''location'' \<and> hasattr d ''location_type'' then
        (if map_of d ''location_type'' = Some (external e) then ScheduledEventLocation v
         else (case map_of d ''channel'' of
                 Some c \<Rightarrow> ScheduledEventLocation c
               | None \<Rightarrow> v))
      else v)"

definition generic_change :: "entry \<Rightarrow> bag \<times> bag \<Rightarrow> change \<Rightarrow> error + bag \<times> bag" where
  "generic_change e ba elem =
     (let (attr, transformer) = resolve (key elem)
      in seq (side_value e transformer (old_value elem)) (\<lambda>v_before.
         seq (setattr (fst ba) attr (locate e (fst ba) attr v_before)) (\<lambda>d_before.
         seq (side_value e transformer (new_value elem)) (\<lambda>v_after.
         seq (setattr (snd ba) attr (locate e (snd ba) attr v_after)) (\<lambda>d_after.
           Inr (d_before, d_after))))))"

definition required :: "pyval option \<Rightarrow> error + pyval" where
  \<comment> \<open>\<^verbatim>\<open>elem["new_value"]\<close>\<close>
  "required raw = (case raw of None \<Rightarrow> Inl KeyError | Some v \<Rightarrow> Inr v)"

definition change_step :: "entry \<Rightarrow> bag \<times> bag \<Rightarrow> change \<Rightarrow> error + bag \<times> bag" where
  \<comment> \<open>the body of the loop of \<^verbatim>\<open>AuditLogChanges.__init__\<close> on \<open>(before, after)\<close>\<close>
  "change_step e ba elem =
     (let attr = key elem in
      if attr = ''$add'' then
        seq (required (new_value elem)) (\<lambda>v. handle_role (fst ba) (snd ba) e v)
      else if attr = ''$remove'' then
        seq (required (new_value elem)) (\<lambda>v.
          seq (handle_role (snd ba) (fst ba) e v) (\<lambda>r. Inr (snd r, fst r)))
      else if attr \<in> set [''$add_keyword_filter'', ''$add_regex_patterns'', ''$add_allow_list''] then
        seq (required (new_value elem)) (\<lambda>v.
          Inr (handle_trigger_metadata (fst ba) (snd ba) e v attr))
      else if attr \<in> set [''$remove_keyword_filter'', ''$remove_regex_patterns'',
                           ''$remove_allow_list''] then
        seq (required (new_value elem)) (\<lambda>v.
          let r = handle_trigger_metadata (snd ba) (fst ba) e v attr in Inr (snd r, fst r))
      else generic_change e ba elem)"

fun run_changes :: "entry \<Rightarrow> change list \<Rightarrow> bag \<times> bag \<Rightarrow> error + bag \<times> bag" where
  "run_changes e [] ba = Inr ba"
| "run_changes e (elem # rest) ba =
     (case change_step e ba elem of Inl err \<Rightarrow> Inl err | Inr ba' \<Rightarrow> run_changes e rest ba')"

definition add_alias :: "string \<Rightarrow> string \<Rightarrow> bag \<times> bag \<Rightarrow> error + bag \<times> bag" where
  \<comment> \<open>\<^verbatim>\<open>if hasattr(self.after, a): self.after.b = self.after.a; self.before.b = self.before.a\<close>\<close>
  "add_alias a b ba =
     (if hasattr (snd ba) a then
        seq (getattr (snd ba) a) (\<lambda>va.
          let d_after = store (snd ba) b va
          in seq (getattr (fst ba) a) (\<lambda>vb. Inr (store (fst ba) b vb, d_after)))
      else Inr ba)"

definition AuditLogChanges :: "entry \<Rightarrow> change list \<Rightarrow> error + bag \<times> bag" where
  \<comment> \<open>\<^verbatim>\<open>AuditLogChanges.__init__\<close>: the pair \<open>(before, after)\<close> it leaves, or the exception\<close>
  "AuditLogChanges e data =
     seq (run_changes e (sort_key key data) ([], [])) (\<lambda>ba.
     seq (add_alias ''colour'' ''color'' ba) (\<lambda>ba.
     add_alias ''expire_behavior'' ''expire_behaviour'' ba))"

section \<open>\<^verbatim>\<open>AuditLogEntry\<close>\<close>

definition channel_or_object :: "entry \<Rightarrow> int \<Rightarrow> error + pyval" where
  \<comment> \<open>\<^verbatim>\<open>self.guild.get_channel(channel_id) or Object(id=channel_id)\<close>\<close>
  "channel_or_object e channel_id =
     (case get_channel (guild e) channel_id of Some h \<Rightarrow> Inr (VEntity Channel h)
      | None \<Rightarrow> Object (VInt channel_id))"

definition is_action :: "entry \<Rightarrow> string \<Rightarrow> bool" where
  \<comment> \<open>\<^verbatim>\<open>self.action is enums.AuditLogAction.<name>\<close>\<close>
  "is_action e n = (is_member (action e) \<and> action_name (action e) = n)"

definition decode_extra :: "entry \<Rightarrow> error + pyval" where
  \<comment> \<open>the \<^verbatim>\<open>if isinstance(self.action, enums.AuditLogAction) and self.extra:\<close> block of
      \<^verbatim>\<open>_from_data\<close>: the value of \<^verbatim>\<open>self.extra\<close> after it\<close>
  "decode_extra e =
     (if is_member (action e) \<and> truthy (extra e) then
        if is_action e ''member_prune'' then
          seq (py_items (extra e)) (\<lambda>kvs.
          seq (map_res (\<lambda>kv. seq (py_int (snd kv)) (\<lambda>i. Inr (fst kv, VInt i))) kvs) (\<lambda>attrs.
            Inr (VProxy attrs)))
        else if is_action e ''member_move'' \<or> is_action e ''message_delete'' then
          seq (py_getitem (extra e) ''channel_id'') (\<lambda>c. seq (py_int c) (\<lambda>channel_id.
          seq (py_getitem (extra e) ''count'') (\<lambda>n. seq (py_int n) (\<lambda>count.
          seq (channel_or_object e channel_id) (\<lambda>channel.
            Inr (VProxy [(''count'', VInt count), (''channel'', channel)]))))))
        else if is_action e ''member_disconnect'' then
          seq (py_getitem (extra e) ''count'') (\<lambda>n. seq (py_int n) (\<lambda>count.
            Inr (VProxy [(''count'', VInt count)])))
        else if endswith (action_name (action e)) ''pin'' then
          seq (py_getitem (extra e) ''channel_id'') (\<lambda>c. seq (py_int c) (\<lambda>channel_id.
          seq (channel_or_object e channel_id) (\<lambda>channel.
          seq (py_getitem (extra e) ''message_id'') (\<lambda>m. seq (py_int m) (\<lambda>message_id.
            Inr (VProxy [(''channel'', channel), (''message_id'', VInt message_id)]))))))
        else if startswith (action_name (action e)) ''overwrite_'' then
          seq (py_getitem (extra e) ''id'') (\<lambda>i. seq (py_int i) (\<lambda>instance_id.
          seq (py_get (extra e) ''type'') (\<lambda>the_type.
            if the_type = VStr ''1'' then Inr (entry_get_member e (Some instance_id))
            else if the_type = VStr ''0'' then
              (case get_role (guild e) instance_id of Some h \<Rightarrow> Inr (VEntity Role h)
               | None \<Rightarrow>
                   seq (Object (VInt instance_id)) (\<lambda>role.
                   seq (py_get (extra e) ''role_name'') (\<lambda>n. Inr (set_name role n))))
            else Inr (extra e))))
        else if startswith (action_name (action e)) ''stage_instance'' then
          seq (py_getitem (extra e) ''channel_id'') (\<lambda>c. seq (py_int c) (\<lambda>channel_id.
          seq (channel_or_object e channel_id) (\<lambda>channel.
            Inr (VProxy [(''channel'', channel)]))))
        else Inr (extra e)
      else Inr (extra e))"

definition dict_get :: "pyval option \<Rightarrow> pyval" where
  \<comment> \<open>\<^verbatim>\<open>data.get(k)\<close> on the payload\<close>
  "dict_get x = (case x of None \<Rightarrow> VNone | Some v \<Rightarrow> v)"

definition started :: "collab \<Rightarrow> payload \<Rightarrow> int \<Rightarrow> entry" where
  \<comment> \<open>the entry when \<^verbatim>\<open>_from_data\<close> reaches the block on \<^verbatim>\<open>self.extra\<close>: \<^verbatim>\<open>action\<close>, \<^verbatim>\<open>id\<close>,
      \<^verbatim>\<open>reason\<close> and the raw \<^verbatim>\<open>extra\<close> are assigned, the other attributes not yet\<close>
  "started c data i =
     \<lparr> env = c, action = try_enum_action c (data_action_type data), entry_id = i,
       reason = dict_get (data_reason data), extra = dict_get (data_options data),
       changes_raw = None, user = VNone, target_id = None,
       cached_changes = None, cached_before = None, cached_after = None,
       cached_target = None \<rparr>"

definition from_data :: "collab \<Rightarrow> payload \<Rightarrow> error + entry" where
  \<comment> \<open>\<^verbatim>\<open>AuditLogEntry.__init__\<close> with \<^verbatim>\<open>_from_data\<close>: the new entry, or the exception\<close>
  "from_data c data =
     seq (py_int (data_id data)) (\<lambda>i.
       let e = started c data i
       in seq (decode_extra e) (\<lambda>x.
          seq (get_as_snowflake c (data_user_id data)) (\<lambda>user_id.
          seq (get_as_snowflake c (data_target_id data)) (\<lambda>tid.
            Inr (e \<lparr> extra := x,
                     changes_raw := Some (case data_changes data of None \<Rightarrow> [] | Some cs \<Rightarrow> cs),
                     user := entry_get_member e user_id,
                     target_id := tid \<rparr>)))))"

subsection \<open>The lazy properties\<close>

text \<open>
  The diff objects and the \<^verbatim>\<open>AuditLogChanges\<close> object are heap objects: two accesses
  return the same object when they return the same address.
\<close>

datatype obj = DiffObj bag | ChangesObj nat nat

record world =
  ent :: entry
  objs :: "nat \<Rightarrow> obj option"
  fresh :: nat

type_synonym 'a accessor = "world \<Rightarrow> (error + 'a) \<times> world"

definition cached_property ::
  "(entry \<Rightarrow> 'a option) \<Rightarrow> (entry \<Rightarrow> 'a \<Rightarrow> entry) \<Rightarrow> 'a accessor \<Rightarrow> 'a accessor" where
  \<comment> \<open>Modelled from the spec: \<^verbatim>\<open>utils.cached_property\<close> is not part of the module; a
      compute-or-return-cached accessor backed by a slot of the entry, the value being
      computed on the first access and stored.\<close>
  "cached_property slot fill compute w =
     (case slot (ent w) of Some v \<Rightarrow> (Inr v, w)
      | None \<Rightarrow>
          (case compute w of (Inl err, w') \<Rightarrow> (Inl err, w')
           | (Inr v, w') \<Rightarrow> (Inr v, w'\<lparr>ent := fill (ent w') v\<rparr>)))"

definition new_changes :: "bag \<times> bag \<Rightarrow> world \<Rightarrow> nat \<times> world" where
  \<comment> \<open>allocation of the \<^verbatim>\<open>AuditLogChanges\<close> object and of its two diffs\<close>
  "new_changes ba w =
     (let n = fresh w
      in (n + 2,
          w\<lparr>objs := (objs w)(n \<mapsto> DiffObj (fst ba), n + 1 \<mapsto> DiffObj (snd ba),
                              n + 2 \<mapsto> ChangesObj n (n + 1)),
            fresh := n + 3\<rparr>))"

definition changes_body :: "nat accessor" where
  "changes_body w =
     (case changes_raw (ent w) of None \<Rightarrow> (Inl AttributeError, w)
      | Some raw \<Rightarrow>
          (case AuditLogChanges (ent w) raw of Inl err \<Rightarrow> (Inl err, w)
           | Inr ba \<Rightarrow>
               (let (c, w') = new_changes ba w
                in (Inr c, w'\<lparr>ent := (ent w')\<lparr>changes_raw := None\<rparr>\<rparr>))))"

definition changes :: "nat accessor" where
  "changes = cached_property cached_changes (\<lambda>e v. e\<lparr>cached_changes := Some v\<rparr>) changes_body"

definition before_body :: "nat accessor" where
  "before_body w =
     (case changes w of (Inl err, w') \<Rightarrow> (Inl err, w')
      | (Inr c, w') \<Rightarrow>
          (case objs w' c of Some (ChangesObj b a) \<Rightarrow> (Inr b, w')
           | other \<Rightarrow> (Inl AttributeError, w')))"

definition before :: "nat accessor" where
  "before = cached_property cached_before (\<lambda>e v. e\<lparr>cached_before := Some v\<rparr>) before_body"

definition after_body :: "nat accessor" where
  "after_body w =
     (case changes w of (Inl err, w') \<Rightarrow> (Inl err, w')
      | (Inr c, w') \<Rightarrow>
          (case objs w' c of Some (ChangesObj b a) \<Rightarrow> (Inr a, w')
           | other \<Rightarrow> (Inl AttributeError, w')))"

definition after :: "nat accessor" where
  "after = cached_property cached_after (\<lambda>e v. e\<lparr>cached_after := Some v\<rparr>) after_body"

subsection \<open>The target\<close>

definition find_or_object :: "kind \<Rightarrow> (int \<Rightarrow> nat option) \<Rightarrow> int option \<Rightarrow> error + pyval" where
  \<comment> \<open>\<^verbatim>\<open>lookup(target_id) or Object(id=target_id)\<close>; a lookup of \<^verbatim>\<open>None\<close> misses\<close>
  "find_or_object k lookup tid =
     (case tid of None \<Rightarrow> Object VNone
      | Some i \<Rightarrow> (case lookup i of Some h \<Rightarrow> Inr (VEntity k h) | None \<Rightarrow> Object (VInt i)))"

definition invite_of :: "bag \<Rightarrow> error + pyval" where
  \<comment> \<open>\<^verbatim>\<open>_convert_target_invite\<close> once the changeset is chosen\<close>
  "invite_of changeset =
     seq (getattr changeset ''max_age'') (\<lambda>max_age.
     seq (getattr changeset ''max_uses'') (\<lambda>max_uses.
     seq (getattr changeset ''code'') (\<lambda>code.
     seq (getattr changeset ''temporary'') (\<lambda>temporary.
     seq (getattr changeset ''uses'') (\<lambda>uses.
     seq (getattr changeset ''channel'') (\<lambda>channel.
       let fake_payload = [(''max_age'', max_age), (''max_uses'', max_uses), (''code'', code),
                           (''temporary'', temporary), (''uses'', uses)]
       in (case getattr changeset ''inviter'' of
             Inl err \<Rightarrow> Inr (VInvite fake_payload channel None)
           | Inr inviter \<Rightarrow> Inr (VInvite fake_payload channel (Some inviter)))))))))"

definition convert_target_invite :: "pyval accessor" where
  "convert_target_invite w =
     (case (if is_action (ent w) ''invite_delete'' then before w else after w) of
        (Inl err, w') \<Rightarrow> (Inl err, w')
      | (Inr d, w') \<Rightarrow>
          (case objs w' d of Some (DiffObj changeset) \<Rightarrow> (invite_of changeset, w')
           | other \<Rightarrow> (Inl AttributeError, w')))"

definition target_body :: "pyval accessor" where
  \<comment> \<open>the dispatch on \<^verbatim>\<open>f"_convert_target_{self.action.target_type}"\<close>\<close>
  "target_body w =
     (let e = ent w; g = guild e; st = the_state (env e); tid = target_id e
      in case target_type (action e) of
           None \<Rightarrow> (Object (opt_int tid), w)
         | Some t \<Rightarrow>
             if t = ''guild'' then (Inr (VExt ''self.guild'' []), w)
             else if t = ''channel'' then (find_or_object Channel (get_channel g) tid, w)
             else if t = ''user'' then (Inr (entry_get_member e tid), w)
             else if t = ''role'' then (find_or_object Role (get_role g) tid, w)
             else if t = ''invite'' then convert_target_invite w
             else if t = ''emoji'' then (find_or_object Emoji (get_emoji st) tid, w)
             else if t = ''message'' then (Inr (entry_get_member e tid), w)
             else if t = ''stage_instance'' then
               (find_or_object StageInstance (get_stage_instance g) tid, w)
             else if t = ''sticker'' then (find_or_object Sticker (get_sticker st) tid, w)
             else if t = ''thread'' then (find_or_object Thread (get_thread g) tid, w)
             else if t = ''scheduled_event'' then
               (find_or_object ScheduledEvent (get_scheduled_event g) tid, w)
             else (Object (opt_int tid), w))"

definition target :: "pyval accessor" where
  "target = cached_property cached_target (\<lambda>e v. e\<lparr>cached_target := Some v\<rparr>) target_body"

section \<open>Notions used in the statements\<close>

definition is_composite :: "string \<Rightarrow> bool" where
  \<comment> \<open>the pseudo-keys that \<^verbatim>\<open>AuditLogChanges.__init__\<close> routes to the composite handlers\<close>
  "is_composite attr =
     (attr \<in> set [''$add'', ''$remove'', ''$add_keyword_filter'', ''$add_regex_patterns'',
                   ''$add_allow_list'', ''$remove_keyword_filter'', ''$remove_regex_patterns'',
                   ''$remove_allow_list''])"

definition attrs :: "bag \<Rightarrow> string set" where
  \<comment> \<open>the attribute names set on a diff\<close>
  "attrs d = set (map fst d)"

subsection \<open>A small guild for concrete runs\<close>

definition guild0 :: guild_t where
  "guild0 = \<lparr> guild_id = 1,
      get_channel = (\<lambda>i. if i = 10 then Some 0 else None),
      get_role = (\<lambda>i. if i = 20 then Some 0 else None),
      get_member = (\<lambda>i. if i = 30 then Some 0 else None),
      get_stage_instance = (\<lambda>i. None),
      get_thread = (\<lambda>i. None),
      get_scheduled_event = (\<lambda>i. None) \<rparr>"

definition state0 :: state_t where
  "state0 = \<lparr> state_get_guild = (\<lambda>v. None), get_emoji = (\<lambda>i. None),
               get_sticker = (\<lambda>i. None) \<rparr>"

definition snowflake0 :: "pyval option \<Rightarrow> error + int option" where
  "snowflake0 x =
     (case x of None \<Rightarrow> Inr None
      | Some v \<Rightarrow> if truthy v then seq (py_int v) (\<lambda>i. Inr (Some i)) else Inr None)"

definition action0 :: "pyval \<Rightarrow> action_t" where
  "action0 v =
     (if v = VInt 13 then
        \<lparr> action_name = ''overwrite_create'', is_member = True, target_type = Some ''channel'' \<rparr>
      else if v = VInt 40 then
        \<lparr> action_name = ''invite_create'', is_member = True, target_type = Some ''invite'' \<rparr>
      else if v = VInt 42 then
        \<lparr> action_name = ''invite_delete'', is_member = True, target_type = Some ''invite'' \<rparr>
      else \<lparr> action_name = ''unknown'', is_member = False, target_type = None \<rparr>)"

definition env0 :: collab where
  "env0 = \<lparr> the_guild = guild0, the_state = state0,
             the_users = (\<lambda>i. if i = 31 then Some 1 else None),
             try_enum_action = action0, get_as_snowflake = snowflake0,
             external_ordinal = VInt 3 \<rparr>"

definition entry0 :: "int \<Rightarrow> change list \<Rightarrow> entry" where
  \<comment> \<open>an entry of \<open>guild0\<close> with the given action ordinal and raw changes\<close>
  "entry0 a cs =
     \<lparr> env = env0, action = action0 (VInt a), entry_id = 7, reason = VNone, extra = VNone,
       changes_raw = Some cs, user = VNone, target_id = None, cached_changes = None,
       cached_before = None, cached_after = None, cached_target = None \<rparr>"

definition chg :: "string \<Rightarrow> pyval option \<Rightarrow> pyval option \<Rightarrow> change" where
  "chg k ov nv = \<lparr> key = k, old_value = ov, new_value = nv \<rparr>"


definition resolved_as :: "entry \<Rightarrow> change list \<Rightarrow> pyval option \<Rightarrow> bool" where
  \<comment> \<open>\<open>v\<close> is the \<^verbatim>\<open>roles\<close> attribute that the role records \<open>rs\<close> of one kind (\<^verbatim>\<open>$add\<close> or
      \<^verbatim>\<open>$remove\<close>) account for: the empty-list placeholder when there is none, the resolved
      stubs of the last one otherwise\<close>
  "resolved_as e rs v =
     (if rs = [] then v = Some (VList [])
      else (case new_value (last rs) of None \<Rightarrow> False
            | Some x \<Rightarrow> (case resolve_stubs e x of Inl err \<Rightarrow> False
                         | Inr data \<Rightarrow> v = Some (VList data))))"

definition payload0 :: "int \<Rightarrow> pyval option \<Rightarrow> change list option \<Rightarrow> payload" where
  \<comment> \<open>a raw entry of \<open>guild0\<close> with the given action ordinal, options and changes\<close>
  "payload0 a opts cs =
     \<lparr> data_action_type = VInt a, data_id = VStr ''7'', data_reason = None,
       data_options = opts, data_changes = cs, data_user_id = Some (VStr ''30''),
       data_target_id = None \<rparr>"

subsection \<open>Histories of accesses\<close>

datatype access = GetChanges | GetBefore | GetAfter | GetTarget

definition do_access :: "access \<Rightarrow> world \<Rightarrow> world" where
  \<comment> \<open>the world after reading one of the lazy properties, whether it returned or raised\<close>
  "do_access x w =
     (case x of GetChanges \<Rightarrow> snd (changes w) | GetBefore \<Rightarrow> snd (before w)
      | GetAfter \<Rightarrow> snd (after w) | GetTarget \<Rightarrow> snd (target w))"

definition new_world :: "entry \<Rightarrow> (nat \<Rightarrow> obj option) \<Rightarrow> nat \<Rightarrow> world" where
  \<comment> \<open>a newly constructed entry in any heap\<close>
  "new_world e h n = \<lparr> ent = e, objs = h, fresh = n \<rparr>"

definition slots_ok :: "world \<Rightarrow> bool" where
  \<comment> \<open>what holds of the slots of an entry at any moment: before the changes are
      materialised the raw list is there and no diff is cached; afterwards the raw list
      is gone and a cached diff is the one the \<^verbatim>\<open>AuditLogChanges\<close> object holds\<close>
  "slots_ok w =
     (case cached_changes (ent w) of
        None \<Rightarrow> cached_before (ent w) = None \<and> cached_after (ent w) = None
                \<and> changes_raw (ent w) \<noteq> None
      | Some c \<Rightarrow>
          changes_raw (ent w) = None
          \<and> (case objs w c of
                Some (ChangesObj b a) \<Rightarrow>
                  (cached_before (ent w) = None \<or> cached_before (ent w) = Some b)
                  \<and> (cached_after (ent w) = None \<or> cached_after (ent w) = Some a)
              | other \<Rightarrow> False))"

definition invite_changes :: "change list" where
  \<comment> \<open>the change records of a deleted invite, with an inviter\<close>
  "invite_changes =
     [chg ''code'' (Some (VStr ''abc'')) None,
      chg ''channel_id'' (Some (VStr ''10'')) None,
      chg ''inviter_id'' (Some (VStr ''30'')) None,
      chg ''max_uses'' (Some (VInt 0)) None,
      chg ''uses'' (Some (VInt 3)) None,
      chg ''max_age'' (Some (VInt 60)) None,
      chg ''temporary'' (Some (VBool False)) None]"

definition world0 :: "int \<Rightarrow> change list \<Rightarrow> world" where
  \<comment> \<open>the entry that \<open>from_data\<close> builds in \<open>guild0\<close> from the given action ordinal and change
      records, in an empty heap\<close>
  "world0 a cs = new_world (projr (from_data env0 (payload0 a None (Some cs)))) Map.empty 0"

definition invite_created :: "change list" where
  \<comment> \<open>the change records of a created invite, without an inviter\<close>
  "invite_created =
     [chg ''code'' None (Some (VStr ''xyz'')),
      chg ''channel_id'' None (Some (VStr ''11'')),
      chg ''max_uses'' None (Some (VInt 5)),
      chg ''uses'' None (Some (VInt 0)),
      chg ''max_age'' None (Some (VInt 0)),
      chg ''temporary'' None (Some (VBool True))]"

definition special :: "string \<Rightarrow> bool" where
  \<comment> \<open>the attribute names that \<open>setattr\<close> does not put into the instance dictionary\<close>
  "special a = (a \<in> set [''__dict__'', ''__class__'', ''__weakref__''])"
section \<open>Properties\<close>

subsection \<open>Basic facts\<close>

lemma seq_Inr_iff: "seq m f = Inr y \<longleftrightarrow> (\<exists>v. m = Inr v \<and> f v = Inr y)"
  by (cases m) (simp_all add: seq_def)

lemma seq_Inr [simp]: "seq (Inr v) f = f v"
  by (simp add: seq_def)

lemma seq_Inl [simp]: "seq (Inl e) f = Inl e"
  by (simp add: seq_def)

lemma attrs_store [simp]: "attrs (store d a v) = insert a (attrs d)"
  using AList.dom_update [of a v d] by (simp add: attrs_def store_def)

lemma map_of_store [simp]: "map_of (store d a v) = (map_of d)(a \<mapsto> v)"
  by (simp add: store_def update_conv')

lemma hasattr_attrs: "hasattr d a \<longleftrightarrow> a \<in> attrs d"
  by (simp add: hasattr_def attrs_def map_of_eq_None_iff)

lemma setattr_ordinary: "\<not> special a \<Longrightarrow> setattr d a v = Inr (store d a v)"
  by (simp add: setattr_def special_def)

lemma setattr_Inr:
  assumes "setattr d a v = Inr d'"
  shows "(a = ''__dict__'' \<and> v = VDict d') \<or> (\<not> special a \<and> d' = store d a v)"
  using assms by (auto simp: setattr_def special_def split: if_splits pyval.splits)

subsection \<open>The table\<close>

lemma TRANSFORMERS_names:
  assumes "map_of TRANSFORMERS k = Some (rn, t)"
  shows "\<not> is_composite k \<and> \<not> special k
       \<and> (case rn of None \<Rightarrow> k | Some k' \<Rightarrow> k')
            \<notin> set [''location'', ''roles'', ''color'', ''expire_behaviour'', ''expire_behavior'',
                     ''__dict__'', ''__class__'', ''__weakref__'']
       \<and> rn \<noteq> Some []"
proof -
  from assms have "(k, (rn, t)) \<in> set TRANSFORMERS" by (rule map_of_SomeD)
  then show ?thesis
    unfolding TRANSFORMERS_def is_composite_def special_def by auto
qed

lemma resolve_registered:
  assumes "map_of TRANSFORMERS k = Some (rn, t)"
  shows "resolve k = (case rn of None \<Rightarrow> k | Some k' \<Rightarrow> k', t)"
  using assms TRANSFORMERS_names [OF assms]
  by (auto simp: resolve_def split: option.splits)

lemma resolve_unregistered:
  "map_of TRANSFORMERS k = None \<Longrightarrow> resolve k = (k, None)"
  by (simp add: resolve_def)

lemma resolve_outside:
  assumes "fst (resolve k) = n"
    and "n \<in> set [''location'', ''roles'', ''color'', ''expire_behaviour'', ''expire_behavior'',
                   ''__dict__'', ''__class__'', ''__weakref__'']"
  shows "k = n \<and> resolve k = (n, None)"
proof (cases "map_of TRANSFORMERS k")
  case None
  with assms(1) show ?thesis by (simp add: resolve_unregistered)
next
  case (Some p)
  obtain rn t where "p = (rn, t)" by (cases p)
  with Some have m: "map_of TRANSFORMERS k = Some (rn, t)" by simp
  from TRANSFORMERS_names [OF m] resolve_registered [OF m] assms show ?thesis by auto
qed

lemma resolve_location:
  assumes "fst (resolve k) = ''location''"
  shows "k = ''location'' \<and> resolve k = (''location'', None)"
proof -
  have "''location'' \<in> set [''location'', ''roles'', ''color'', ''expire_behaviour'',
                   ''expire_behavior'', ''__dict__'', ''__class__'', ''__weakref__'']" by simp
  from resolve_outside [OF assms this] show ?thesis .
qed


lemma resolve_dict:
  assumes "fst (resolve k) = ''__dict__''"
  shows "k = ''__dict__''"
proof -
  have "''__dict__'' \<in> set [''location'', ''roles'', ''color'', ''expire_behaviour'',
                   ''expire_behavior'', ''__dict__'', ''__class__'', ''__weakref__'']" by simp
  from resolve_outside [OF assms this] show ?thesis by (rule conjunct1)
qed

lemma resolve_special:
  assumes "special (fst (resolve k))"
  shows "special k"
proof -
  from assms have "fst (resolve k) \<in> set [''location'', ''roles'', ''color'', ''expire_behaviour'',
                   ''expire_behavior'', ''__dict__'', ''__class__'', ''__weakref__'']"
    by (auto simp: special_def)
  from resolve_outside [OF refl this] assms show ?thesis by simp
qed

lemma change_step_generic:
  "\<not> is_composite (key elem) \<Longrightarrow> change_step e ba elem = generic_change e ba elem"
  by (simp add: change_step_def is_composite_def Let_def)

lemma generic_change_Inr:
  assumes "generic_change e ba elem = Inr ba'"
  shows "\<exists>vb va d1 d2.
            side_value e (snd (resolve (key elem))) (old_value elem) = Inr vb
          \<and> setattr (fst ba) (fst (resolve (key elem)))
               (locate e (fst ba) (fst (resolve (key elem))) vb) = Inr d1
          \<and> side_value e (snd (resolve (key elem))) (new_value elem) = Inr va
          \<and> setattr (snd ba) (fst (resolve (key elem)))
               (locate e (snd ba) (fst (resolve (key elem))) va) = Inr d2
          \<and> ba' = (d1, d2)"
  using assms
  by (auto simp: generic_change_def Let_def seq_Inr_iff split: prod.splits)

lemma generic_change_ordinary:
  assumes "generic_change e ba elem = Inr ba'" and "key elem \<noteq> ''__dict__''"
  shows "\<exists>vb va. side_value e (snd (resolve (key elem))) (old_value elem) = Inr vb
           \<and> side_value e (snd (resolve (key elem))) (new_value elem) = Inr va
           \<and> ba' = (store (fst ba) (fst (resolve (key elem)))
                       (locate e (fst ba) (fst (resolve (key elem))) vb),
                    store (snd ba) (fst (resolve (key elem)))
                       (locate e (snd ba) (fst (resolve (key elem))) va))"
proof -
  from assms(2) resolve_dict have n: "fst (resolve (key elem)) \<noteq> ''__dict__''" by blast
  from generic_change_Inr [OF assms(1)] obtain vb va d1 d2 where
    vb: "side_value e (snd (resolve (key elem))) (old_value elem) = Inr vb"
    and d1: "setattr (fst ba) (fst (resolve (key elem)))
               (locate e (fst ba) (fst (resolve (key elem))) vb) = Inr d1"
    and va: "side_value e (snd (resolve (key elem))) (new_value elem) = Inr va"
    and d2: "setattr (snd ba) (fst (resolve (key elem)))
               (locate e (snd ba) (fst (resolve (key elem))) va) = Inr d2"
    and ba': "ba' = (d1, d2)"
    by blast
  from setattr_Inr [OF d1] n have "d1 = store (fst ba) (fst (resolve (key elem)))
                       (locate e (fst ba) (fst (resolve (key elem))) vb)" by simp
  moreover from setattr_Inr [OF d2] n have "d2 = store (snd ba) (fst (resolve (key elem)))
                       (locate e (snd ba) (fst (resolve (key elem))) va)" by simp
  ultimately show ?thesis using vb va ba' by blast
qed

lemma handle_role_attrs:
  assumes "handle_role first second e v = Inr r"
  shows "attrs (fst r) = insert ''roles'' (attrs first)
       \<and> attrs (snd r) = insert ''roles'' (attrs second)"
proof -
  from assms obtain data where
    r: "r = (if \<not> hasattr first ''roles'' then store first ''roles'' (VList []) else first,
             store second ''roles'' (VList data))"
    by (auto simp: handle_role_def Let_def seq_Inr_iff)
  show ?thesis
  proof (cases "hasattr first ''roles''")
    case True
    with r show ?thesis by (auto simp: hasattr_attrs)
  next
    case False
    with r show ?thesis by simp
  qed
qed

lemma handle_trigger_metadata_attrs:
  "attrs (fst (handle_trigger_metadata first second e v attr))
     = insert ''trigger_metadata'' (attrs first)
   \<and> attrs (snd (handle_trigger_metadata first second e v attr))
     = insert ''trigger_metadata'' (attrs second)"
proof (cases "hasattr first ''trigger_metadata''")
  case True
  then show ?thesis by (auto simp: handle_trigger_metadata_def Let_def hasattr_attrs)
next
  case False
  then show ?thesis by (simp add: handle_trigger_metadata_def Let_def)
qed

lemma change_step_add:
  "key elem = ''$add'' \<Longrightarrow>
   change_step e ba elem = seq (required (new_value elem)) (\<lambda>v. handle_role (fst ba) (snd ba) e v)"
  by (simp add: change_step_def)

lemma change_step_remove:
  "key elem = ''$remove'' \<Longrightarrow>
   change_step e ba elem = seq (required (new_value elem)) (\<lambda>v.
          seq (handle_role (snd ba) (fst ba) e v) (\<lambda>r. Inr (snd r, fst r)))"
  by (simp add: change_step_def)

lemma change_step_add_tm:
  "key elem \<in> set [''$add_keyword_filter'', ''$add_regex_patterns'', ''$add_allow_list''] \<Longrightarrow>
   change_step e ba elem = seq (required (new_value elem)) (\<lambda>v.
          Inr (handle_trigger_metadata (fst ba) (snd ba) e v (key elem)))"
  by (auto simp: change_step_def)

lemma change_step_remove_tm:
  "key elem \<in> set [''$remove_keyword_filter'', ''$remove_regex_patterns'',
                    ''$remove_allow_list''] \<Longrightarrow>
   change_step e ba elem = seq (required (new_value elem)) (\<lambda>v.
          Inr (snd (handle_trigger_metadata (snd ba) (fst ba) e v (key elem)),
               fst (handle_trigger_metadata (snd ba) (fst ba) e v (key elem))))"
  by (auto simp: change_step_def Let_def)

lemma change_step_cases:
  obtains (generic) "\<not> is_composite (key elem)"
  | (add) "key elem = ''$add''"
  | (remove) "key elem = ''$remove''"
  | (add_tm) "key elem \<in> set [''$add_keyword_filter'', ''$add_regex_patterns'',
                               ''$add_allow_list'']"
  | (remove_tm) "key elem \<in> set [''$remove_keyword_filter'', ''$remove_regex_patterns'',
                                  ''$remove_allow_list'']"
  unfolding is_composite_def by auto

lemma change_step_attrs:
  assumes "change_step e ba elem = Inr ba'" and "attrs (fst ba) = attrs (snd ba)"
    and "key elem \<noteq> ''__dict__''"
  shows "attrs (fst ba') = attrs (snd ba') \<and> attrs (fst ba) \<subseteq> attrs (fst ba')"
proof (cases elem rule: change_step_cases)
  case generic
  with assms(1) have "generic_change e ba elem = Inr ba'"
    by (simp add: change_step_generic)
  from generic_change_ordinary [OF this assms(3)] assms(2) show ?thesis by auto
next
  case add
  with assms(1) obtain v where "handle_role (fst ba) (snd ba) e v = Inr ba'"
    by (auto simp: change_step_add seq_Inr_iff)
  from handle_role_attrs [OF this] assms(2) show ?thesis by auto
next
  case remove
  with assms(1) obtain v r where "handle_role (snd ba) (fst ba) e v = Inr r"
    and "ba' = (snd r, fst r)"
    by (auto simp: change_step_remove seq_Inr_iff)
  with handle_role_attrs [OF this(1)] assms(2) show ?thesis by auto
next
  case add_tm
  from assms(1) obtain v where
    "ba' = handle_trigger_metadata (fst ba) (snd ba) e v (key elem)"
    unfolding change_step_add_tm [OF add_tm] by (auto simp: seq_Inr_iff)
  with handle_trigger_metadata_attrs [of "fst ba" "snd ba" e v "key elem"] assms(2)
  show ?thesis by auto
next
  case remove_tm
  from assms(1) obtain v where
    "ba' = (snd (handle_trigger_metadata (snd ba) (fst ba) e v (key elem)),
            fst (handle_trigger_metadata (snd ba) (fst ba) e v (key elem)))"
    unfolding change_step_remove_tm [OF remove_tm] by (auto simp: seq_Inr_iff)
  with handle_trigger_metadata_attrs [of "snd ba" "fst ba" e v "key elem"] assms(2)
  show ?thesis by auto
qed

lemma run_changes_attrs:
  assumes "run_changes e s ba = Inr ba'" and "attrs (fst ba) = attrs (snd ba)"
    and "\<forall>r \<in> set s. key r \<noteq> ''__dict__''"
  shows "attrs (fst ba') = attrs (snd ba') \<and> attrs (fst ba) \<subseteq> attrs (fst ba')"
  using assms
proof (induction s arbitrary: ba)
  case Nil
  then show ?case by simp
next
  case (Cons elem rest)
  from Cons.prems(1) obtain ba1 where s: "change_step e ba elem = Inr ba1"
    and r: "run_changes e rest ba1 = Inr ba'"
    by (auto split: sum.splits)
  from Cons.prems(3) have k: "key elem \<noteq> ''__dict__''"
    and ks: "\<forall>r \<in> set rest. key r \<noteq> ''__dict__''" by simp_all
  note a1 = change_step_attrs [OF s Cons.prems(2) k]
  from Cons.IH [OF r conjunct1 [OF a1] ks] a1 show ?case by blast
qed


lemma add_alias_attrs:
  assumes "add_alias x y ba = Inr ba'" and "attrs (fst ba) = attrs (snd ba)"
  shows "attrs (fst ba') = attrs (snd ba') \<and> attrs (fst ba) \<subseteq> attrs (fst ba')"
  using assms
  by (auto simp: add_alias_def Let_def seq_Inr_iff split: if_splits)




lemma locate_other: "attr \<noteq> ''location'' \<Longrightarrow> locate e d attr v = v"
  by (simp add: locate_def)




subsection \<open>Order of the change records\<close>

lemma sort_key_same_order:
  assumes "mset xs = mset ys"
    and "\<forall>k. filter (\<lambda>r. f r = k) xs = filter (\<lambda>r. f r = k) ys"
  shows "sort_key f xs = sort_key f ys"
proof (rule properties_for_sort_key)
  show "mset (sort_key f ys) = mset xs" using assms(1) by simp
  show "sorted (map f (sort_key f ys))" by simp
  show "filter (\<lambda>x. f k = f x) (sort_key f ys) = filter (\<lambda>x. f k = f x) xs" for k
  proof -
    have "filter (\<lambda>x. f k = f x) (sort_key f ys) = filter (\<lambda>x. f x = f k) (sort_key f ys)"
      by (rule filter_cong) auto
    also have "\<dots> = filter (\<lambda>x. f x = f k) ys" by (rule sort_key_stable)
    also have "\<dots> = filter (\<lambda>x. f x = f k) xs" using assms(2) by simp
    also have "\<dots> = filter (\<lambda>x. f k = f x) xs" by (rule filter_cong) auto
    finally show ?thesis .
  qed
qed

lemma filter_key_short:
  "distinct (map f zs) \<Longrightarrow> length (filter (\<lambda>r. f r = k) zs) \<le> Suc 0"
proof (induction zs)
  case Nil
  then show ?case by simp
next
  case (Cons z zs)
  show ?case
  proof (cases "f z = k")
    case True
    from Cons.prems have "f z \<notin> f ` set zs" by simp
    then have "\<forall>r \<in> set zs. f r \<noteq> f z" by (metis imageI)
    with True have "filter (\<lambda>r. f r = k) zs = []"
      by (simp add: filter_empty_conv)
    with True show ?thesis by simp
  next
    case False
    with Cons show ?thesis by simp
  qed
qed

lemma short_mset_eq:
  assumes "mset us = mset vs" and "length us \<le> Suc 0"
  shows "us = vs"
proof (cases us)
  case Nil
  with assms show ?thesis by simp
next
  case (Cons u us')
  with assms(2) have "us = [u]" by simp
  with assms(1) show ?thesis by (metis mset_single_iff_right)
qed

lemma distinct_keys_same_order:
  assumes "mset xs = mset ys" and "distinct (map f xs)"
  shows "filter (\<lambda>r. f r = k) xs = filter (\<lambda>r. f r = k) ys"
proof (rule short_mset_eq)
  show "mset (filter (\<lambda>r. f r = k) xs) = mset (filter (\<lambda>r. f r = k) ys)"
    using assms(1) by (simp add: mset_filter)
  show "length (filter (\<lambda>r. f r = k) xs) \<le> Suc 0"
    using assms(2) by (rule filter_key_short)
qed

text \<open>
  Claim C2 as stated fails. \<^verbatim>\<open>sorted\<close> is stable, so two records with the same key are
  processed in their input order and the later one overwrites the earlier one: the two
  orders of the records \<^verbatim>\<open>{key: "name", new_value: "a"}\<close> and
  \<^verbatim>\<open>{key: "name", new_value: "b"}\<close> decode to different \<^verbatim>\<open>after\<close> diffs.
\<close>

theorem C2_counterexample:
  "mset [chg ''name'' None (Some (VStr ''a'')), chg ''name'' None (Some (VStr ''b''))]
     = mset [chg ''name'' None (Some (VStr ''b'')), chg ''name'' None (Some (VStr ''a''))]
   \<and> AuditLogChanges (entry0 1 [])
        [chg ''name'' None (Some (VStr ''a'')), chg ''name'' None (Some (VStr ''b''))]
      = Inr ([(''name'', VNone)], [(''name'', VStr ''b'')])
   \<and> AuditLogChanges (entry0 1 [])
        [chg ''name'' None (Some (VStr ''b'')), chg ''name'' None (Some (VStr ''a''))]
      = Inr ([(''name'', VNone)], [(''name'', VStr ''a'')])"
  by code_simp

text \<open>
  Claim C2, as amended. Two change lists that are permutations of each other, and in
  which the records of each key occur in the same relative order (in particular two
  permutations of a list whose keys are pairwise distinct, by
  \<open>distinct_keys_same_order\<close>), decode to the same result for the same entry: the same
  pair of diffs, or the same exception.
\<close>

theorem C2_same_relative_order:
  assumes "mset xs = mset ys"
    and "\<forall>k. filter (\<lambda>r. key r = k) xs = filter (\<lambda>r. key r = k) ys"
  shows "AuditLogChanges e xs = AuditLogChanges e ys"
  using sort_key_same_order [OF assms] by (simp add: AuditLogChanges_def)


text \<open>The amended C2 at two orders of a list with distinct keys.\<close>

theorem C2_witness:
  "mset [chg ''name'' None (Some (VStr ''a'')), chg ''id'' (Some (VStr ''5'')) None]
     = mset [chg ''id'' (Some (VStr ''5'')) None, chg ''name'' None (Some (VStr ''a''))]
   \<and> AuditLogChanges (entry0 1 [])
        [chg ''name'' None (Some (VStr ''a'')), chg ''id'' (Some (VStr ''5'')) None]
      = AuditLogChanges (entry0 1 [])
        [chg ''id'' (Some (VStr ''5'')) None, chg ''name'' None (Some (VStr ''a''))]
   \<and> AuditLogChanges (entry0 1 [])
        [chg ''id'' (Some (VStr ''5'')) None, chg ''name'' None (Some (VStr ''a''))]
      = Inr ([(''id'', VInt 5), (''name'', VNone)], [(''id'', VNone), (''name'', VStr ''a'')])"
proof -
  let ?xs = "[chg ''name'' None (Some (VStr ''a'')), chg ''id'' (Some (VStr ''5'')) None]"
  let ?ys = "[chg ''id'' (Some (VStr ''5'')) None, chg ''name'' None (Some (VStr ''a''))]"
  have m: "mset ?xs = mset ?ys" by simp
  have d: "distinct (map key ?xs)" by (simp add: chg_def)
  have o: "\<forall>k. filter (\<lambda>r. key r = k) ?xs = filter (\<lambda>r. key r = k) ?ys"
    using distinct_keys_same_order [OF m d] by blast
  have v: "AuditLogChanges (entry0 1 []) ?ys
      = Inr ([(''id'', VInt 5), (''name'', VNone)], [(''id'', VNone), (''name'', VStr ''a'')])"
    by code_simp
  from C2_same_relative_order [OF m o, of "entry0 1 []"] m v show ?thesis by simp
qed

subsection \<open>The \<^verbatim>\<open>location\<close> special case\<close>

lemma change_step_location:
  assumes "fst (resolve (key elem)) = ''location''"
  shows "change_step e (b0, a0) elem =
           Inr (store b0 ''location'' (locate e b0 ''location'' (dict_get (old_value elem))),
                store a0 ''location'' (locate e a0 ''location'' (dict_get (new_value elem))))"
proof -
  note rl = resolve_location [OF assms]
  from rl have k: "key elem = ''location''" by (rule conjunct1)
  from rl have r: "resolve (key elem) = (''location'', None)" by (rule conjunct2)
  from k have "\<not> is_composite (key elem)" by (simp add: is_composite_def)
  then have "change_step e (b0, a0) elem = generic_change e (b0, a0) elem"
    by (rule change_step_generic)
  also have "\<dots> = Inr (store b0 ''location'' (locate e b0 ''location'' (dict_get (old_value elem))),
                store a0 ''location'' (locate e a0 ''location'' (dict_get (new_value elem))))"
    by (simp add: generic_change_def r side_value_def dict_get_def Let_def setattr_def
        split: option.splits)
  finally show ?thesis .
qed

text \<open>
  Claim C3, as amended. When the resolved attribute name of a change record is
  \<^verbatim>\<open>location\<close> (which only the raw key \<^verbatim>\<open>location\<close> gives), the record never raises and
  writes \<^verbatim>\<open>location\<close> on both diffs: on each side the value \<open>locate e d ''location'' raw\<close>,
  with \<open>raw\<close> the raw value of that side (\<^verbatim>\<open>None\<close> when absent) and \<open>d\<close> the diff of that
  same side as it is before the record. That value is:
  if \<open>d\<close> carries a \<^verbatim>\<open>location_type\<close> that is the external location type, the stored
  value is a location value-object wrapping \<open>raw\<close>; if \<open>d\<close> carries another
  \<^verbatim>\<open>location_type\<close> and a \<^verbatim>\<open>channel\<close>, it is a location value-object wrapping that
  channel; otherwise, and in particular whenever \<open>d\<close> carries no \<^verbatim>\<open>location_type\<close>, the
  raw value is stored as it is.
\<close>

theorem C3_location_by_same_side:
  assumes "fst (resolve (key elem)) = ''location''"
  shows "change_step e (b0, a0) elem =
           Inr (store b0 ''location'' (locate e b0 ''location'' (dict_get (old_value elem))),
                store a0 ''location'' (locate e a0 ''location'' (dict_get (new_value elem))))
    \<and> (\<forall>d raw.
          (map_of d ''location_type'' = Some (external e) \<longrightarrow>
             locate e d ''location'' raw = ScheduledEventLocation raw)
        \<and> (\<forall>t c. map_of d ''location_type'' = Some t \<and> t \<noteq> external e
               \<and> map_of d ''channel'' = Some c \<longrightarrow>
             locate e d ''location'' raw = ScheduledEventLocation c)
        \<and> (\<forall>t. map_of d ''location_type'' = Some t \<and> t \<noteq> external e
               \<and> map_of d ''channel'' = None \<longrightarrow>
             locate e d ''location'' raw = raw)
        \<and> (map_of d ''location_type'' = None \<longrightarrow> locate e d ''location'' raw = raw))"
proof (intro conjI allI)
  show "change_step e (b0, a0) elem =
           Inr (store b0 ''location'' (locate e b0 ''location'' (dict_get (old_value elem))),
                store a0 ''location'' (locate e a0 ''location'' (dict_get (new_value elem))))"
    using assms by (rule change_step_location)
qed (auto simp: locate_def hasattr_def)

text \<open>
  Claim C3 as stated fails. After \<^verbatim>\<open>{key: "channel_id", old_value: "10", new_value: "10"}\<close>
  both diffs carry a \<^verbatim>\<open>channel\<close> and neither carries a \<^verbatim>\<open>location_type\<close>; the record
  \<^verbatim>\<open>{key: "location", old_value: "X", new_value: "Y"}\<close> then stores the raw strings, not
  location value-objects wrapping the channel: the \<^verbatim>\<open>channel\<close> test is nested under the
  \<^verbatim>\<open>location_type\<close> test.
\<close>

theorem C3_counterexample:
  "AuditLogChanges (entry0 1 [])
     [chg ''channel_id'' (Some (VStr ''10'')) (Some (VStr ''10'')),
      chg ''location'' (Some (VStr ''X'')) (Some (VStr ''Y''))]
   = Inr ([(''channel'', VEntity Channel 0), (''location'', VStr ''X'')],
          [(''channel'', VEntity Channel 0), (''location'', VStr ''Y'')])
   \<and> VStr ''X'' \<noteq> ScheduledEventLocation (VEntity Channel 0)
   \<and> VStr ''Y'' \<noteq> ScheduledEventLocation (VEntity Channel 0)"
  by code_simp

text \<open>
  The amended C3 at a record whose \<^verbatim>\<open>before\<close> side sees the external location type and
  whose \<^verbatim>\<open>after\<close> side sees another location type and a channel.
\<close>

theorem C3_witness:
  "fst (resolve (key (chg ''location'' (Some (VStr ''X'')) None))) = ''location''
   \<and> change_step (entry0 1 [])
        ([(''location_type'', try_enum ''ScheduledEventLocationType'' (VInt 3))],
         [(''location_type'', try_enum ''ScheduledEventLocationType'' (VInt 2)),
          (''channel'', VEntity Channel 0)])
        (chg ''location'' (Some (VStr ''X'')) None)
     = Inr ([(''location_type'', try_enum ''ScheduledEventLocationType'' (VInt 3)),
             (''location'', ScheduledEventLocation (VStr ''X''))],
            [(''location_type'', try_enum ''ScheduledEventLocationType'' (VInt 2)),
             (''channel'', VEntity Channel 0),
             (''location'', ScheduledEventLocation (VEntity Channel 0))])"
proof -
  let ?elem = "chg ''location'' (Some (VStr ''X'')) None"
  let ?b0 = "[(''location_type'', try_enum ''ScheduledEventLocationType'' (VInt 3))]"
  let ?a0 = "[(''location_type'', try_enum ''ScheduledEventLocationType'' (VInt 2)),
              (''channel'', VEntity Channel 0)]"
  have h: "fst (resolve (key ?elem)) = ''location''"
    by code_simp
  have x: "external (entry0 1 []) = try_enum ''ScheduledEventLocationType'' (VInt 3)"
    by code_simp
  have ne: "try_enum ''ScheduledEventLocationType'' (VInt 2) \<noteq> external (entry0 1 [])"
    by code_simp
  have ov: "dict_get (old_value ?elem) = VStr ''X''" and nv: "dict_get (new_value ?elem) = VNone"
    by code_simp+
  note t = C3_location_by_same_side [OF h, of "entry0 1 []" ?b0 ?a0]
  from t have s: "change_step (entry0 1 []) (?b0, ?a0) ?elem
          = Inr (store ?b0 ''location'' (locate (entry0 1 []) ?b0 ''location'' (VStr ''X'')),
                 store ?a0 ''location'' (locate (entry0 1 []) ?a0 ''location'' VNone))"
    unfolding ov nv by (rule conjunct1)
  from t have c: "locate (entry0 1 []) ?b0 ''location'' (VStr ''X'') = ScheduledEventLocation (VStr ''X'')"
    using x by simp
  from t ne have a: "locate (entry0 1 []) ?a0 ''location'' VNone = ScheduledEventLocation (VEntity Channel 0)"
    by simp
  have u: "store ?b0 ''location'' (ScheduledEventLocation (VStr ''X''))
             = [(''location_type'', try_enum ''ScheduledEventLocationType'' (VInt 3)),
             (''location'', ScheduledEventLocation (VStr ''X''))]"
    "store ?a0 ''location'' (ScheduledEventLocation (VEntity Channel 0))
      = [(''location_type'', try_enum ''ScheduledEventLocationType'' (VInt 2)),
             (''channel'', VEntity Channel 0),
             (''location'', ScheduledEventLocation (VEntity Channel 0))]"
    by (simp_all add: store_def)
  from h s show ?thesis unfolding c a u by simp
qed

subsection \<open>The aliases\<close>

lemma add_alias_total:
  assumes "attrs (fst ba) = attrs (snd ba)"
  shows "\<exists>ba'. add_alias x y ba = Inr ba'"
proof (cases "hasattr (snd ba) x")
  case False
  then show ?thesis by (simp add: add_alias_def)
next
  case True
  then obtain va where va: "map_of (snd ba) x = Some va" by (auto simp: hasattr_def)
  from True assms have "hasattr (fst ba) x" by (simp add: hasattr_attrs)
  then obtain vb where vb: "map_of (fst ba) x = Some vb" by (auto simp: hasattr_def)
  from True va vb show ?thesis by (simp add: add_alias_def getattr_def Let_def)
qed

lemma add_alias_map_of:
  assumes "add_alias x y ba = Inr ba'" and "k \<noteq> y"
  shows "map_of (fst ba') k = map_of (fst ba) k \<and> map_of (snd ba') k = map_of (snd ba) k"
  using assms by (auto simp: add_alias_def Let_def seq_Inr_iff split: if_splits)

lemma AuditLogChanges_of_run:
  assumes "run_changes e (sort_key key data) ([], []) = Inr ba1"
    and "\<forall>r \<in> set data. key r \<noteq> ''__dict__''"
  shows "\<exists>ba. AuditLogChanges e data = Inr ba
           \<and> (\<forall>k. k \<notin> {''color'', ''expire_behaviour''} \<longrightarrow>
                 map_of (fst ba) k = map_of (fst ba1) k \<and> map_of (snd ba) k = map_of (snd ba1) k)"
proof -
  have e0: "attrs (fst ([], [])) = attrs (snd (([], []) :: bag \<times> bag))" by simp
  from assms(2) have ns: "\<forall>r \<in> set (sort_key key data). key r \<noteq> ''__dict__''" by simp
  note a1 = run_changes_attrs [OF assms(1) e0 ns]
  from add_alias_total [OF conjunct1 [OF a1]] obtain ba2 where
    c: "add_alias ''colour'' ''color'' ba1 = Inr ba2" by blast
  note a2 = add_alias_attrs [OF c conjunct1 [OF a1]]
  from add_alias_total [OF conjunct1 [OF a2]] obtain ba where
    x: "add_alias ''expire_behavior'' ''expire_behaviour'' ba2 = Inr ba" by blast
  have "AuditLogChanges e data = Inr ba"
    by (simp add: AuditLogChanges_def assms(1) c x)
  moreover have "map_of (fst ba) k = map_of (fst ba1) k \<and> map_of (snd ba) k = map_of (snd ba1) k"
    if "k \<notin> {''color'', ''expire_behaviour''}" for k
  proof -
    from that have "k \<noteq> ''color''" "k \<noteq> ''expire_behaviour''" by simp_all
    from add_alias_map_of [OF c this(1)] add_alias_map_of [OF x this(2)] show ?thesis by simp
  qed
  ultimately show ?thesis by blast
qed

subsection \<open>Registered transformers\<close>

lemma change_step_registered:
  assumes "map_of TRANSFORMERS (key elem) = Some (rn, Some t)"
    and "old_value elem = Some ov" and "new_value elem = Some nv"
  shows "change_step e (b0, a0) elem =
           seq (t e ov) (\<lambda>vb. seq (t e nv) (\<lambda>va.
             Inr (store b0 (case rn of None \<Rightarrow> key elem | Some k \<Rightarrow> k) vb,
                  store a0 (case rn of None \<Rightarrow> key elem | Some k \<Rightarrow> k) va)))"
proof -
  note n = TRANSFORMERS_names [OF assms(1)]
  let ?name = "case rn of None \<Rightarrow> key elem | Some k \<Rightarrow> k"
  from n have "change_step e (b0, a0) elem = generic_change e (b0, a0) elem"
    by (simp add: change_step_generic)
  moreover from n have "?name \<noteq> ''location''" by simp
  moreover from n have "\<not> special ?name" by (simp add: special_def)
  ultimately show ?thesis
    by (simp add: generic_change_def resolve_registered [OF assms(1)] side_value_def assms(2,3)
        locate_other setattr_ordinary Let_def)
qed

text \<open>
  Claim C6. A record whose key is registered in \<^verbatim>\<open>TRANSFORMERS\<close> with a transformer and
  which carries both \<^verbatim>\<open>old_value\<close> and \<^verbatim>\<open>new_value\<close> is on the generic path, and when the
  transformer returns on both values the record writes \<open>transformer(old_value)\<close> on the
  \<^verbatim>\<open>before\<close> diff and \<open>transformer(new_value)\<close> on the \<^verbatim>\<open>after\<close> diff, under the renamed
  attribute when the table gives one and under the key otherwise; decoding the record
  alone gives diffs with these two values.
\<close>

theorem C6_registered_transformer:
  assumes "map_of TRANSFORMERS (key elem) = Some (rn, Some t)"
    and "old_value elem = Some ov" and "new_value elem = Some nv"
    and "t e ov = Inr vb" and "t e nv = Inr va"
    and "name = (case rn of None \<Rightarrow> key elem | Some k \<Rightarrow> k)"
  shows "\<not> is_composite (key elem)
       \<and> change_step e (b0, a0) elem = Inr (store b0 name vb, store a0 name va)
       \<and> (\<exists>b a. AuditLogChanges e [elem] = Inr (b, a)
                  \<and> map_of b name = Some vb \<and> map_of a name = Some va)"
proof -
  note n = TRANSFORMERS_names [OF assms(1)]
  have s: "change_step e (b, a) elem = Inr (store b name vb, store a name va)" for b a
    by (simp add: change_step_registered [OF assms(1,2,3)] assms(4,5,6))
  then have run: "run_changes e (sort_key key [elem]) ([], [])
               = Inr (store [] name vb, store [] name va)"
    by simp
  from n have nd: "\<forall>r \<in> set [elem]. key r \<noteq> ''__dict__''" by (simp add: special_def)
  from AuditLogChanges_of_run [OF run nd] obtain ba where
    d: "AuditLogChanges e [elem] = Inr ba"
    and m: "\<forall>k. k \<notin> {''color'', ''expire_behaviour''} \<longrightarrow>
                 map_of (fst ba) k = map_of (fst (store [] name vb, store [] name va)) k
               \<and> map_of (snd ba) k = map_of (snd (store [] name vb, store [] name va)) k"
    by blast
  from n assms(6) have "name \<notin> {''color'', ''expire_behaviour''}" by simp
  with m have "map_of (fst ba) name = Some vb \<and> map_of (snd ba) name = Some va" by simp
  with d have "\<exists>b a. AuditLogChanges e [elem] = Inr (b, a)
                  \<and> map_of b name = Some vb \<and> map_of a name = Some va"
    by (cases ba) auto
  with n s show ?thesis by simp
qed

text \<open>
  C6 at \<^verbatim>\<open>{key: "color", old_value: 5, new_value: 6}\<close>: the values are \<^verbatim>\<open>Colour(5)\<close> and
  \<^verbatim>\<open>Colour(6)\<close>, stored under \<^verbatim>\<open>colour\<close>.
\<close>

theorem C6_witness:
  "map_of TRANSFORMERS (key (chg ''color'' (Some (VInt 5)) (Some (VInt 6))))
     = Some (Some ''colour'', Some transform_color)
   \<and> transform_color (entry0 1 []) (VInt 5) = Inr (VExt ''Colour'' [VInt 5])
   \<and> transform_color (entry0 1 []) (VInt 6) = Inr (VExt ''Colour'' [VInt 6])
   \<and> change_step (entry0 1 []) ([], []) (chg ''color'' (Some (VInt 5)) (Some (VInt 6)))
       = Inr ([(''colour'', VExt ''Colour'' [VInt 5])], [(''colour'', VExt ''Colour'' [VInt 6])])
   \<and> (\<exists>b a. AuditLogChanges (entry0 1 []) [chg ''color'' (Some (VInt 5)) (Some (VInt 6))]
                = Inr (b, a)
            \<and> map_of b ''colour'' = Some (VExt ''Colour'' [VInt 5])
            \<and> map_of a ''colour'' = Some (VExt ''Colour'' [VInt 6]))"
proof -
  let ?elem = "chg ''color'' (Some (VInt 5)) (Some (VInt 6))"
  have m: "map_of TRANSFORMERS (key ?elem) = Some (Some ''colour'', Some transform_color)"
    by (simp add: TRANSFORMERS_def chg_def)
  have o: "old_value ?elem = Some (VInt 5)" and n: "new_value ?elem = Some (VInt 6)"
    by (simp_all add: chg_def)
  have vb: "transform_color (entry0 1 []) (VInt 5) = Inr (VExt ''Colour'' [VInt 5])"
    and va: "transform_color (entry0 1 []) (VInt 6) = Inr (VExt ''Colour'' [VInt 6])"
    by (simp_all add: transform_color_def)
  have nm: "''colour'' = (case Some ''colour'' of None \<Rightarrow> key ?elem | Some k \<Rightarrow> k)" by simp
  from C6_registered_transformer [OF m o n vb va nm, of "[]" "[]"] m vb va
  show ?thesis by (simp add: store_def)
qed

subsection \<open>Lookups that miss\<close>


lemma Object_VInt [simp]: "Object (VInt i) = Inr (VObject i None)"
  by (simp add: Object_def)











subsection \<open>Role lists\<close>




lemma resolved_as_None [simp]: "\<not> resolved_as e rs None"
  by (simp add: resolved_as_def split: option.splits sum.splits)







subsection \<open>The extra payload of the overwrite actions\<close>

lemma startswith_overwrite:
  assumes "startswith n ''overwrite_''"
  shows "n \<noteq> ''member_prune'' \<and> n \<noteq> ''member_move'' \<and> n \<noteq> ''message_delete''
       \<and> n \<noteq> ''member_disconnect''"
  using assms by (auto simp: startswith_def)

lemma decode_extra_overwrite_other:
  assumes "startswith (action_name (action e)) ''overwrite_''"
    and "\<not> endswith (action_name (action e)) ''pin''"
    and "py_get (extra e) ''type'' \<noteq> Inr (VStr ''1'')"
    and "py_get (extra e) ''type'' \<noteq> Inr (VStr ''0'')"
    and "decode_extra e = Inr x"
  shows "x = extra e"
proof (cases "is_member (action e) \<and> truthy (extra e)")
  case False
  with assms(5) show ?thesis by (auto simp: decode_extra_def)
next
  case True
  note n = startswith_overwrite [OF assms(1)]
  from True n assms(1,2) have
    "decode_extra e =
       seq (py_getitem (extra e) ''id'') (\<lambda>i. seq (py_int i) (\<lambda>instance_id.
          seq (py_get (extra e) ''type'') (\<lambda>the_type.
            if the_type = VStr ''1'' then Inr (entry_get_member e (Some instance_id))
            else if the_type = VStr ''0'' then
              (case get_role (guild e) instance_id of Some h \<Rightarrow> Inr (VEntity Role h)
               | None \<Rightarrow>
                   seq (Object (VInt instance_id)) (\<lambda>role.
                   seq (py_get (extra e) ''role_name'') (\<lambda>n. Inr (set_name role n))))
            else Inr (extra e))))"
    by (simp add: decode_extra_def is_action_def)
  with assms(3,4,5) show ?thesis
    by (auto simp: seq_Inr_iff split: if_splits)
qed

lemma from_data_Inr:
  assumes "from_data c data = Inr e"
  shows "\<exists>i. py_int (data_id data) = Inr i
          \<and> decode_extra (started c data i) = Inr (extra e)
          \<and> action e = try_enum_action c (data_action_type data) \<and> env e = c \<and> entry_id e = i
          \<and> changes_raw e = Some (case data_changes data of None \<Rightarrow> [] | Some cs \<Rightarrow> cs)
          \<and> cached_changes e = None \<and> cached_before e = None \<and> cached_after e = None
          \<and> cached_target e = None"
  using assms by (auto simp: from_data_def Let_def seq_Inr_iff started_def)

text \<open>
  Claim C10. For an entry of an \<^verbatim>\<open>overwrite_\<close> action (none of which has a name ending
  in \<^verbatim>\<open>pin\<close>) whose options give under \<^verbatim>\<open>type\<close> neither the string \<^verbatim>\<open>"1"\<close> nor the string
  \<^verbatim>\<open>"0"\<close>, \<^verbatim>\<open>extra\<close> is the raw options value unchanged.
\<close>

theorem C10_extra_left_raw:
  assumes "from_data c data = Inr e"
    and "act = try_enum_action c (data_action_type data)"
    and "startswith (action_name act) ''overwrite_''"
    and "\<not> endswith (action_name act) ''pin''"
    and "opts = dict_get (data_options data)"
    and "py_get opts ''type'' \<noteq> Inr (VStr ''1'')"
    and "py_get opts ''type'' \<noteq> Inr (VStr ''0'')"
  shows "extra e = opts \<and> action e = act"
proof -
  from from_data_Inr [OF assms(1)] obtain i where
    d: "decode_extra (started c data i) = Inr (extra e)"
    and ae: "action e = try_enum_action c (data_action_type data)"
    by blast
  let ?e0 = "started c data i"
  have a: "action ?e0 = try_enum_action c (data_action_type data)"
    and x: "extra ?e0 = dict_get (data_options data)"
    by (simp_all add: started_def)
  from assms(2-7) a x have "startswith (action_name (action ?e0)) ''overwrite_''"
    "\<not> endswith (action_name (action ?e0)) ''pin''"
    "py_get (extra ?e0) ''type'' \<noteq> Inr (VStr ''1'')"
    "py_get (extra ?e0) ''type'' \<noteq> Inr (VStr ''0'')"
    by simp_all
  from decode_extra_overwrite_other [OF this d] x assms(5) a ae assms(2)
  show ?thesis by simp
qed

text \<open>
  C10 at an \<^verbatim>\<open>overwrite_create\<close> entry with options \<^verbatim>\<open>{id: "20", type: 0}\<close> (the integer
  0), and at one with options \<^verbatim>\<open>{id: "20"}\<close> (no \<^verbatim>\<open>type\<close>); with the string \<^verbatim>\<open>"0"\<close> the
  cached role 20 replaces the options.
\<close>

theorem C10_witness:
  "map_sum id extra
     (from_data env0 (payload0 13 (Some (VDict [(''id'', VStr ''20''), (''type'', VInt 0)])) None))
     = Inr (VDict [(''id'', VStr ''20''), (''type'', VInt 0)])
   \<and> map_sum id extra
     (from_data env0 (payload0 13 (Some (VDict [(''id'', VStr ''20'')])) None))
     = Inr (VDict [(''id'', VStr ''20'')])
   \<and> map_sum id extra
     (from_data env0 (payload0 13 (Some (VDict [(''id'', VStr ''20''), (''type'', VStr ''0'')])) None))
     = Inr (VEntity Role 0)"
proof -
  let ?o1 = "VDict [(''id'', VStr ''20''), (''type'', VInt 0)]"
  let ?o2 = "VDict [(''id'', VStr ''20'')]"
  let ?d1 = "payload0 13 (Some ?o1) None"
  let ?d2 = "payload0 13 (Some ?o2) None"
  have act: "action0 (VInt 13) = try_enum_action env0 (data_action_type ?d1)"
    "action0 (VInt 13) = try_enum_action env0 (data_action_type ?d2)"
    by (simp_all add: env0_def payload0_def)
  have sw: "startswith (action_name (action0 (VInt 13))) ''overwrite_''"
    and pin: "\<not> endswith (action_name (action0 (VInt 13))) ''pin''"
    by code_simp+
  have o1: "?o1 = dict_get (data_options ?d1)" and o2: "?o2 = dict_get (data_options ?d2)"
    by (simp_all add: payload0_def dict_get_def)
  have t1: "py_get ?o1 ''type'' \<noteq> Inr (VStr ''1'')" "py_get ?o1 ''type'' \<noteq> Inr (VStr ''0'')"
    and t2: "py_get ?o2 ''type'' \<noteq> Inr (VStr ''1'')" "py_get ?o2 ''type'' \<noteq> Inr (VStr ''0'')"
    by simp_all
  have "\<not> isl (from_data env0 ?d1)" by code_simp
  then obtain e1 where e1: "from_data env0 ?d1 = Inr e1" by (cases "from_data env0 ?d1") auto
  have "\<not> isl (from_data env0 ?d2)" by code_simp
  then obtain e2 where e2: "from_data env0 ?d2 = Inr e2" by (cases "from_data env0 ?d2") auto
  from C10_extra_left_raw [OF e1 act(1) sw pin o1 t1] have 1: "extra e1 = ?o1" by simp
  from C10_extra_left_raw [OF e2 act(2) sw pin o2 t2] have 2: "extra e2 = ?o2" by simp
  have 3: "map_sum id extra
     (from_data env0 (payload0 13 (Some (VDict [(''id'', VStr ''20''), (''type'', VStr ''0'')])) None))
     = Inr (VEntity Role 0)" by code_simp
  from 1 2 3 e1 e2 show ?thesis by simp
qed

subsection \<open>The lazy properties\<close>

lemma changes_cached:
  "cached_changes (ent w) = Some c \<Longrightarrow> changes w = (Inr c, w)"
  by (simp add: changes_def cached_property_def)

lemma slots_ok_cached:
  assumes "slots_ok w" and "cached_changes (ent w) = Some c"
  shows "changes_raw (ent w) = None
       \<and> (\<exists>b a. objs w c = Some (ChangesObj b a)
             \<and> (cached_before (ent w) = None \<or> cached_before (ent w) = Some b)
             \<and> (cached_after (ent w) = None \<or> cached_after (ent w) = Some a))"
  using assms by (auto simp: slots_ok_def split: option.splits obj.splits)

lemma changes_first:
  assumes "cached_changes (ent w) = None" and "changes w = (Inr c, w1)"
  shows "\<exists>raw db da. changes_raw (ent w) = Some raw
           \<and> AuditLogChanges (ent w) raw = Inr (db, da)
           \<and> c = fresh w + 2
           \<and> w1 = w\<lparr>objs := (objs w)(fresh w \<mapsto> DiffObj db, fresh w + 1 \<mapsto> DiffObj da,
                                       fresh w + 2 \<mapsto> ChangesObj (fresh w) (fresh w + 1)),
                     fresh := fresh w + 3,
                     ent := (ent w)\<lparr>changes_raw := None, cached_changes := Some c\<rparr>\<rparr>"
  using assms
  by (auto simp: changes_def cached_property_def changes_body_def new_changes_def Let_def
      split: option.splits sum.splits prod.splits)

lemma changes_raises:
  assumes "changes w = (Inl err, w1)"
  shows "w1 = w \<and> cached_changes (ent w) = None"
  using assms
  by (auto simp: changes_def cached_property_def changes_body_def new_changes_def Let_def
      split: option.splits sum.splits prod.splits)

lemma slots_ok_changes:
  assumes "slots_ok w"
  shows "slots_ok (snd (changes w))"
proof (cases "cached_changes (ent w)")
  case (Some c)
  with assms show ?thesis by (simp add: changes_cached)
next
  case None
  obtain r w1 where c: "changes w = (r, w1)" by (cases "changes w")
  show ?thesis
  proof (cases r)
    case (Inl err)
    with c changes_raises assms show ?thesis by auto
  next
    case (Inr p)
    with c changes_first [OF None] obtain raw db da where
      "w1 = w\<lparr>objs := (objs w)(fresh w \<mapsto> DiffObj db, fresh w + 1 \<mapsto> DiffObj da,
                                       fresh w + 2 \<mapsto> ChangesObj (fresh w) (fresh w + 1)),
                     fresh := fresh w + 3,
                     ent := (ent w)\<lparr>changes_raw := None, cached_changes := Some p\<rparr>\<rparr>"
      "p = fresh w + 2"
      by blast
    with assms None c show ?thesis by (simp add: slots_ok_def)
  qed
qed


lemma changes_result:
  assumes "slots_ok w" and "changes w = (r, w1)"
  shows "slots_ok w1 \<and> cached_before (ent w1) = cached_before (ent w)
       \<and> cached_after (ent w1) = cached_after (ent w)
       \<and> cached_target (ent w1) = cached_target (ent w)
       \<and> action (ent w1) = action (ent w)
       \<and> (\<forall>c. cached_changes (ent w) = Some c \<longrightarrow> r = Inr c \<and> w1 = w)
       \<and> (\<forall>c. r = Inr c \<longrightarrow> cached_changes (ent w1) = Some c)
       \<and> (\<forall>err. r = Inl err \<longrightarrow> w1 = w \<and> cached_changes (ent w) = None)"
proof (cases "cached_changes (ent w)")
  case (Some c)
  with assms(2) have "r = Inr c" "w1 = w" by (simp_all add: changes_cached)
  with Some assms(1) show ?thesis by simp
next
  case None
  from slots_ok_changes [OF assms(1)] assms(2) have w1: "slots_ok w1" by simp
  show ?thesis
  proof (cases r)
    case (Inl err)
    with assms(2) changes_raises have "w1 = w" by blast
    with Inl None assms(1) show ?thesis by simp
  next
    case (Inr c)
    with assms(2) changes_first [OF None] obtain raw db da where
      "w1 = w\<lparr>objs := (objs w)(fresh w \<mapsto> DiffObj db, fresh w + 1 \<mapsto> DiffObj da,
                                       fresh w + 2 \<mapsto> ChangesObj (fresh w) (fresh w + 1)),
                     fresh := fresh w + 3,
                     ent := (ent w)\<lparr>changes_raw := None, cached_changes := Some c\<rparr>\<rparr>"
      by blast
    with w1 Inr None show ?thesis by simp
  qed
qed

lemma before_cached:
  "cached_before (ent w) = Some b \<Longrightarrow> before w = (Inr b, w)"
  by (simp add: before_def cached_property_def)

lemma after_cached:
  "cached_after (ent w) = Some a \<Longrightarrow> after w = (Inr a, w)"
  by (simp add: after_def cached_property_def)

lemma slots_ok_store_before:
  assumes "slots_ok w" and "cached_changes (ent w) = Some c" and "objs w c = Some (ChangesObj b a)"
  shows "slots_ok (w\<lparr>ent := (ent w)\<lparr>cached_before := Some b\<rparr>\<rparr>)"
  using assms by (auto simp: slots_ok_def)

lemma slots_ok_store_after:
  assumes "slots_ok w" and "cached_changes (ent w) = Some c" and "objs w c = Some (ChangesObj b a)"
  shows "slots_ok (w\<lparr>ent := (ent w)\<lparr>cached_after := Some a\<rparr>\<rparr>)"
  using assms by (auto simp: slots_ok_def)

lemma before_result:
  assumes "slots_ok w" and "before w = (r, w1)"
  shows "slots_ok w1 \<and> action (ent w1) = action (ent w)
       \<and> cached_target (ent w1) = cached_target (ent w)
       \<and> (\<forall>c. cached_changes (ent w) = Some c \<longrightarrow>
             cached_changes (ent w1) = Some c \<and> objs w1 = objs w \<and> (\<exists>b. r = Inr b))
       \<and> (\<forall>b. r = Inr b \<longrightarrow>
             (\<exists>c a. cached_changes (ent w1) = Some c \<and> objs w1 c = Some (ChangesObj b a)))
       \<and> (\<forall>err. r = Inl err \<longrightarrow> w1 = w \<and> cached_changes (ent w) = None)"
proof (cases "cached_before (ent w)")
  case (Some b)
  with assms(2) have r: "r = Inr b" "w1 = w" by (simp_all add: before_cached)
  from Some assms(1) obtain c where c: "cached_changes (ent w) = Some c"
    by (cases "cached_changes (ent w)") (auto simp: slots_ok_def)
  from slots_ok_cached [OF assms(1) c] Some obtain a where "objs w c = Some (ChangesObj b a)"
    by auto
  with r c assms(1) show ?thesis by simp
next
  case None
  obtain rc w' where ch: "changes w = (rc, w')" by (cases "changes w")
  note cr = changes_result [OF assms(1) ch]
  show ?thesis
  proof (cases rc)
    case (Inl err)
    with ch None assms(2) have "r = Inl err" "w1 = w'"
      by (simp_all add: before_def cached_property_def before_body_def)
    with cr Inl assms(1) show ?thesis by simp
  next
    case (Inr c)
    with cr have cc: "cached_changes (ent w') = Some c" and w': "slots_ok w'" by simp_all
    from slots_ok_cached [OF w' cc] obtain b a where o: "objs w' c = Some (ChangesObj b a)" by blast
    from ch Inr o None assms(2) have r: "r = Inr b"
      and w1: "w1 = w'\<lparr>ent := (ent w')\<lparr>cached_before := Some b\<rparr>\<rparr>"
      by (simp_all add: before_def cached_property_def before_body_def)
    from slots_ok_store_before [OF w' cc o] w1 have "slots_ok w1" by simp
    moreover from w1 cc o have "cached_changes (ent w1) = Some c"
      "objs w1 c = Some (ChangesObj b a)" by simp_all
    moreover from cr w1 have "action (ent w1) = action (ent w)"
      "cached_target (ent w1) = cached_target (ent w)" by simp_all
    moreover have "cached_changes (ent w1) = Some c' \<and> objs w1 = objs w"
      if "cached_changes (ent w) = Some c'" for c'
      using that cr w1 Inr by simp
    ultimately show ?thesis using r by simp
  qed
qed

lemma after_result:
  assumes "slots_ok w" and "after w = (r, w1)"
  shows "slots_ok w1 \<and> action (ent w1) = action (ent w)
       \<and> cached_target (ent w1) = cached_target (ent w)
       \<and> (\<forall>c. cached_changes (ent w) = Some c \<longrightarrow>
             cached_changes (ent w1) = Some c \<and> objs w1 = objs w \<and> (\<exists>a. r = Inr a))
       \<and> (\<forall>a. r = Inr a \<longrightarrow>
             (\<exists>c b. cached_changes (ent w1) = Some c \<and> objs w1 c = Some (ChangesObj b a)))
       \<and> (\<forall>err. r = Inl err \<longrightarrow> w1 = w \<and> cached_changes (ent w) = None)"
proof (cases "cached_after (ent w)")
  case (Some a)
  with assms(2) have r: "r = Inr a" "w1 = w" by (simp_all add: after_cached)
  from Some assms(1) obtain c where c: "cached_changes (ent w) = Some c"
    by (cases "cached_changes (ent w)") (auto simp: slots_ok_def)
  from slots_ok_cached [OF assms(1) c] Some obtain b where "objs w c = Some (ChangesObj b a)"
    by auto
  with r c assms(1) show ?thesis by simp
next
  case None
  obtain rc w' where ch: "changes w = (rc, w')" by (cases "changes w")
  note cr = changes_result [OF assms(1) ch]
  show ?thesis
  proof (cases rc)
    case (Inl err)
    with ch None assms(2) have "r = Inl err" "w1 = w'"
      by (simp_all add: after_def cached_property_def after_body_def)
    with cr Inl assms(1) show ?thesis by simp
  next
    case (Inr c)
    with cr have cc: "cached_changes (ent w') = Some c" and w': "slots_ok w'" by simp_all
    from slots_ok_cached [OF w' cc] obtain b a where o: "objs w' c = Some (ChangesObj b a)" by blast
    from ch Inr o None assms(2) have r: "r = Inr a"
      and w1: "w1 = w'\<lparr>ent := (ent w')\<lparr>cached_after := Some a\<rparr>\<rparr>"
      by (simp_all add: after_def cached_property_def after_body_def)
    from slots_ok_store_after [OF w' cc o] w1 have "slots_ok w1" by simp
    moreover from w1 cc o have "cached_changes (ent w1) = Some c"
      "objs w1 c = Some (ChangesObj b a)" by simp_all
    moreover from cr w1 have "action (ent w1) = action (ent w)"
      "cached_target (ent w1) = cached_target (ent w)" by simp_all
    moreover have "cached_changes (ent w1) = Some c' \<and> objs w1 = objs w"
      if "cached_changes (ent w) = Some c'" for c'
      using that cr w1 Inr by simp
    ultimately show ?thesis using r by simp
  qed
qed


lemma convert_target_invite_world:
  "snd (convert_target_invite w) = snd (before w) \<or> snd (convert_target_invite w) = snd (after w)"
  by (simp add: convert_target_invite_def split: prod.splits sum.splits option.splits obj.splits)

lemma target_body_world:
  "snd (target_body w) = w \<or> snd (target_body w) = snd (before w)
   \<or> snd (target_body w) = snd (after w)"
proof (cases "target_type (action (ent w)) = Some ''invite''")
  case True
  then have "target_body w = convert_target_invite w"
    by (simp add: target_body_def Let_def)
  with convert_target_invite_world [of w] show ?thesis by simp
next
  case False
  then have "snd (target_body w) = w"
    by (simp add: target_body_def Let_def split: option.splits)
  then show ?thesis by simp
qed

lemma slots_ok_store_target [simp]:
  "slots_ok (w\<lparr>ent := (ent w)\<lparr>cached_target := x\<rparr>\<rparr>) = slots_ok w"
  by (simp add: slots_ok_def cong: option.case_cong obj.case_cong)

lemma target_world:
  "snd (target w) = w
   \<or> snd (target w) = snd (target_body w)
   \<or> (\<exists>v. snd (target w) = (snd (target_body w))\<lparr>ent := (ent (snd (target_body w)))\<lparr>cached_target := Some v\<rparr>\<rparr>)"
proof (cases "cached_target (ent w)")
  case (Some v)
  then show ?thesis by (simp add: target_def cached_property_def)
next
  case None
  obtain r w' where b: "target_body w = (r, w')" by (cases "target_body w")
  show ?thesis
  proof (cases r)
    case (Inl err)
    with None b show ?thesis by (simp add: target_def cached_property_def)
  next
    case (Inr v)
    with None b have "snd (target w) = w'\<lparr>ent := (ent w')\<lparr>cached_target := Some v\<rparr>\<rparr>"
      by (simp add: target_def cached_property_def)
    with b show ?thesis by auto
  qed
qed

lemma body_preserves:
  assumes "slots_ok w" and "w' = w \<or> w' = snd (before w) \<or> w' = snd (after w)"
  shows "slots_ok w' \<and> (\<forall>c. cached_changes (ent w) = Some c \<longrightarrow>
                           cached_changes (ent w') = Some c \<and> objs w' = objs w)
       \<and> (cached_changes (ent w') = None \<longrightarrow> w' = w)"
proof -
  obtain rb wb where b: "before w = (rb, wb)" by (cases "before w")
  obtain ra wa where a: "after w = (ra, wa)" by (cases "after w")
  note rb = before_result [OF assms(1) b]
  note ra = after_result [OF assms(1) a]
  have 1: "slots_ok w'" using rb ra assms b a by auto
  have 2: "cached_changes (ent w') = Some c \<and> objs w' = objs w"
    if "cached_changes (ent w) = Some c" for c
    using that rb ra assms(2) b a by auto
  have 3: "w' = w" if n: "cached_changes (ent w') = None"
  proof -
    have "wb = w" if "w' = wb"
    proof (cases rb)
      case (Inl err)
      with rb show ?thesis by simp
    next
      case (Inr x)
      with rb that n show ?thesis by auto
    qed
    moreover have "wa = w" if "w' = wa"
    proof (cases ra)
      case (Inl err)
      with ra show ?thesis by simp
    next
      case (Inr x)
      with ra that n show ?thesis by auto
    qed
    ultimately show ?thesis using assms(2) b a by auto
  qed
  from 1 2 3 show ?thesis by blast
qed

lemma preserved_trans:
  assumes "slots_ok w' \<and> (\<forall>c. cached_changes (ent w) = Some c \<longrightarrow>
                           cached_changes (ent w') = Some c \<and> objs w' = objs w)
       \<and> (cached_changes (ent w') = None \<longrightarrow> w' = w)"
  shows "slots_ok w'
       \<and> (\<forall>c. cached_changes (ent w) = Some c \<longrightarrow>
             cached_changes (ent w') = Some c \<and> objs w' = objs w)
       \<and> (cached_changes (ent w') = None \<longrightarrow> changes_raw (ent w') = changes_raw (ent w))"
proof (intro conjI allI impI)
  from assms show "slots_ok w'" by simp
next
  fix c assume "cached_changes (ent w) = Some c"
  with assms show "cached_changes (ent w') = Some c" by simp
next
  fix c assume "cached_changes (ent w) = Some c"
  with assms show "objs w' = objs w" by simp
next
  assume "cached_changes (ent w') = None"
  with assms have "w' = w" by simp
  then show "changes_raw (ent w') = changes_raw (ent w)" by simp
qed

lemma changes_preserves:
  assumes "slots_ok w"
  shows "slots_ok (snd (changes w)) \<and> (\<forall>c. cached_changes (ent w) = Some c \<longrightarrow>
                           cached_changes (ent (snd (changes w))) = Some c
                           \<and> objs (snd (changes w)) = objs w)
       \<and> (cached_changes (ent (snd (changes w))) = None \<longrightarrow> snd (changes w) = w)"
proof -
  obtain r w1 where c: "changes w = (r, w1)" by (cases "changes w")
  note cr = changes_result [OF assms c]
  have 3: "w1 = w" if "cached_changes (ent w1) = None"
  proof (cases r)
    case (Inl err)
    with cr show ?thesis by simp
  next
    case (Inr p)
    with cr that show ?thesis by simp
  qed
  have 2: "cached_changes (ent w1) = Some p \<and> objs w1 = objs w"
    if "cached_changes (ent w) = Some p" for p
    using cr that by simp
  from cr have 1: "slots_ok w1" by simp
  from 1 2 3 show ?thesis unfolding c by simp
qed

lemma target_preserves:
  assumes "slots_ok w"
  shows "slots_ok (snd (target w)) \<and> (\<forall>c. cached_changes (ent w) = Some c \<longrightarrow>
                           cached_changes (ent (snd (target w))) = Some c
                           \<and> objs (snd (target w)) = objs w)
       \<and> (cached_changes (ent (snd (target w))) = None \<longrightarrow>
             changes_raw (ent (snd (target w))) = changes_raw (ent w))"
proof -
  let ?w' = "snd (target_body w)"
  note p = preserved_trans [OF body_preserves [OF assms target_body_world]]
  from target_world [of w]
  consider "snd (target w) = w" | "snd (target w) = ?w'"
    | v where "snd (target w) = ?w'\<lparr>ent := (ent ?w')\<lparr>cached_target := Some v\<rparr>\<rparr>"
    by blast
  then show ?thesis
  proof cases
    case 1
    with assms show ?thesis by simp
  next
    case 2
    with p show ?thesis by simp
  next
    case 3
    have "slots_ok (?w'\<lparr>ent := (ent ?w')\<lparr>cached_target := Some v\<rparr>\<rparr>)"
      using p by simp
    moreover have "cached_changes (ent (?w'\<lparr>ent := (ent ?w')\<lparr>cached_target := Some v\<rparr>\<rparr>))
                     = cached_changes (ent ?w')"
      "objs (?w'\<lparr>ent := (ent ?w')\<lparr>cached_target := Some v\<rparr>\<rparr>) = objs ?w'"
      "changes_raw (ent (?w'\<lparr>ent := (ent ?w')\<lparr>cached_target := Some v\<rparr>\<rparr>))
                     = changes_raw (ent ?w')"
      by simp_all
    ultimately show ?thesis unfolding 3 using p by presburger
  qed
qed

lemma access_step:
  assumes "slots_ok w"
  shows "slots_ok (do_access x w)
       \<and> (\<forall>c. cached_changes (ent w) = Some c \<longrightarrow>
             cached_changes (ent (do_access x w)) = Some c \<and> objs (do_access x w) = objs w)
       \<and> (cached_changes (ent (do_access x w)) = None \<longrightarrow>
             changes_raw (ent (do_access x w)) = changes_raw (ent w))"
proof (cases x)
  case GetChanges
  then have d: "do_access x w = snd (changes w)" by (simp add: do_access_def)
  show ?thesis unfolding d by (rule preserved_trans [OF changes_preserves [OF assms]])
next
  case GetBefore
  then have d: "do_access x w = snd (before w)" by (simp add: do_access_def)
  have "snd (before w) = w \<or> snd (before w) = snd (before w) \<or> snd (before w) = snd (after w)"
    by simp
  from preserved_trans [OF body_preserves [OF assms this]] show ?thesis unfolding d .
next
  case GetAfter
  then have d: "do_access x w = snd (after w)" by (simp add: do_access_def)
  have "snd (after w) = w \<or> snd (after w) = snd (before w) \<or> snd (after w) = snd (after w)"
    by simp
  from preserved_trans [OF body_preserves [OF assms this]] show ?thesis unfolding d .
next
  case GetTarget
  then have d: "do_access x w = snd (target w)" by (simp add: do_access_def)
  show ?thesis unfolding d by (rule target_preserves [OF assms])
qed

lemma history_ok:
  assumes "slots_ok w"
  shows "slots_ok (fold do_access accs w)
       \<and> (\<forall>c. cached_changes (ent w) = Some c \<longrightarrow>
             cached_changes (ent (fold do_access accs w)) = Some c
             \<and> objs (fold do_access accs w) = objs w)
       \<and> (cached_changes (ent (fold do_access accs w)) = None \<longrightarrow>
             changes_raw (ent (fold do_access accs w)) = changes_raw (ent w))"
  using assms
proof (induction accs arbitrary: w)
  case Nil
  then show ?case by simp
next
  case (Cons x accs)
  note s = access_step [OF Cons.prems, of x]
  from s have ok: "slots_ok (do_access x w)" by simp
  note ih = Cons.IH [OF ok]
  have "cached_changes (ent (do_access x w)) = None"
    if "cached_changes (ent (fold do_access accs (do_access x w))) = None"
  proof (cases "cached_changes (ent (do_access x w))")
    case None
    then show ?thesis .
  next
    case (Some c)
    with ih that show ?thesis by simp
  qed
  with ih s show ?case by auto
qed

lemma slots_ok_new:
  assumes "from_data c data = Inr e"
  shows "slots_ok (new_world e h n)"
  using from_data_Inr [OF assms] by (auto simp: slots_ok_def new_world_def)


lemma changes_raw_new:
  assumes "from_data c data = Inr e"
  shows "changes_raw (ent (new_world e h n))
           = Some (case data_changes data of None \<Rightarrow> [] | Some cs \<Rightarrow> cs)"
  using from_data_Inr [OF assms] by (auto simp: new_world_def)

text \<open>
  Claim C8. Take an entry as \<^verbatim>\<open>_from_data\<close> constructs it, after any history of accesses
  to its lazy properties that has not yet materialised \<^verbatim>\<open>changes\<close>. If the access to
  \<^verbatim>\<open>changes\<close> returns, it returns a new \<^verbatim>\<open>AuditLogChanges\<close> object holding the two diffs
  decoded from the raw list the payload gave, and the raw list is deleted from the
  entry. After any further accesses, \<^verbatim>\<open>changes\<close> returns the same object (the same
  address, in an unchanged heap) and the raw list is still absent.
\<close>

theorem C8_changes_memoized:
  assumes "from_data c data = Inr e"
    and "w = fold do_access accs (new_world e h n)"
    and "cached_changes (ent w) = None"
    and "changes w = (Inr p, w1)"
  shows "(\<exists>raw db da pb pa.
            raw = (case data_changes data of None \<Rightarrow> [] | Some cs \<Rightarrow> cs)
          \<and> changes_raw (ent w) = Some raw
          \<and> AuditLogChanges (ent w) raw = Inr (db, da)
          \<and> objs w1 p = Some (ChangesObj pb pa)
          \<and> objs w1 pb = Some (DiffObj db) \<and> objs w1 pa = Some (DiffObj da))
       \<and> changes_raw (ent w1) = None
       \<and> (\<forall>later. changes (fold do_access later w1) = (Inr p, fold do_access later w1)
             \<and> changes_raw (ent (fold do_access later w1)) = None
             \<and> objs (fold do_access later w1) = objs w1)"
proof -
  note ok0 = slots_ok_new [OF assms(1), of h n]
  note h0 = history_ok [OF ok0, of accs]
  from h0 assms(2) have ok: "slots_ok w" by simp
  from h0 assms(2,3) changes_raw_new [OF assms(1), of h n]
  have raw0: "changes_raw (ent w) = Some (case data_changes data of None \<Rightarrow> [] | Some cs \<Rightarrow> cs)"
    by simp
  from changes_first [OF assms(3,4)] obtain raw db da where
    raw: "changes_raw (ent w) = Some raw"
    and dec: "AuditLogChanges (ent w) raw = Inr (db, da)"
    and p: "p = fresh w + 2"
    and w1: "w1 = w\<lparr>objs := (objs w)(fresh w \<mapsto> DiffObj db, fresh w + 1 \<mapsto> DiffObj da,
                                       fresh w + 2 \<mapsto> ChangesObj (fresh w) (fresh w + 1)),
                     fresh := fresh w + 3,
                     ent := (ent w)\<lparr>changes_raw := None, cached_changes := Some p\<rparr>\<rparr>"
    by blast
  from raw raw0 have r: "raw = (case data_changes data of None \<Rightarrow> [] | Some cs \<Rightarrow> cs)" by simp
  from w1 p have o: "objs w1 p = Some (ChangesObj (fresh w) (fresh w + 1))"
    "objs w1 (fresh w) = Some (DiffObj db)" "objs w1 (fresh w + 1) = Some (DiffObj da)"
    by simp_all
  from w1 have gone: "changes_raw (ent w1) = None" and cc: "cached_changes (ent w1) = Some p"
    by simp_all
  from changes_result [OF ok assms(4)] have ok1: "slots_ok w1" by simp
  have later: "changes (fold do_access later w1) = (Inr p, fold do_access later w1)
             \<and> changes_raw (ent (fold do_access later w1)) = None
             \<and> objs (fold do_access later w1) = objs w1" for later
  proof -
    note hl = history_ok [OF ok1, of later]
    from hl cc have c2: "cached_changes (ent (fold do_access later w1)) = Some p"
      and o2: "objs (fold do_access later w1) = objs w1"
      and ok2: "slots_ok (fold do_access later w1)" by simp_all
    from slots_ok_cached [OF ok2 c2] changes_cached [OF c2] o2 show ?thesis by simp
  qed
  from r raw dec o gone later show ?thesis by blast
qed

text \<open>
  Claim C9. Take an entry as \<^verbatim>\<open>_from_data\<close> constructs it, after any history of accesses.
  If \<^verbatim>\<open>before\<close> returns, it returns the address that the \<^verbatim>\<open>AuditLogChanges\<close> object
  returned by \<^verbatim>\<open>changes\<close> holds as its \<^verbatim>\<open>before\<close>; the same for \<^verbatim>\<open>after\<close>; and if
  \<^verbatim>\<open>changes\<close> returns an object, then \<^verbatim>\<open>before\<close> and \<^verbatim>\<open>after\<close> return the two addresses it
  holds, without changing the heap.
\<close>

theorem C9_before_after_are_changes_fields:
  assumes "from_data c data = Inr e"
    and "w = fold do_access accs (new_world e h n)"
  shows "(\<forall>b w1. before w = (Inr b, w1) \<longrightarrow>
            (\<exists>p a. changes w1 = (Inr p, w1) \<and> objs w1 p = Some (ChangesObj b a)))
       \<and> (\<forall>a w1. after w = (Inr a, w1) \<longrightarrow>
            (\<exists>p b. changes w1 = (Inr p, w1) \<and> objs w1 p = Some (ChangesObj b a)))
       \<and> (\<forall>p w1. changes w = (Inr p, w1) \<longrightarrow>
            (\<exists>b a. objs w1 p = Some (ChangesObj b a)
                  \<and> fst (before w1) = Inr b \<and> fst (after w1) = Inr a
                  \<and> objs (snd (before w1)) = objs w1 \<and> objs (snd (after w1)) = objs w1))"
proof (intro conjI allI impI)
  note ok0 = slots_ok_new [OF assms(1), of h n]
  from history_ok [OF ok0, of accs] assms(2) have ok: "slots_ok w" by simp
  {
    fix b w1
    assume "before w = (Inr b, w1)"
    from before_result [OF ok this] obtain p a where
      "cached_changes (ent w1) = Some p" "objs w1 p = Some (ChangesObj b a)" by auto
    with changes_cached [of w1 p]
    show "\<exists>p a. changes w1 = (Inr p, w1) \<and> objs w1 p = Some (ChangesObj b a)" by auto
  next
    fix a w1
    assume "after w = (Inr a, w1)"
    from after_result [OF ok this] obtain p b where
      "cached_changes (ent w1) = Some p" "objs w1 p = Some (ChangesObj b a)" by auto
    with changes_cached [of w1 p]
    show "\<exists>p b. changes w1 = (Inr p, w1) \<and> objs w1 p = Some (ChangesObj b a)" by auto
  next
    fix p w1
    assume ch: "changes w = (Inr p, w1)"
    from changes_result [OF ok ch] have ok1: "slots_ok w1"
      and cc: "cached_changes (ent w1) = Some p" by simp_all
    obtain rb wb where b: "before w1 = (rb, wb)" by (cases "before w1")
    obtain ra wa where a: "after w1 = (ra, wa)" by (cases "after w1")
    from before_result [OF ok1 b] cc obtain vb where rb: "rb = Inr vb"
      and cb: "cached_changes (ent wb) = Some p" and ob: "objs wb = objs w1" by auto
    from before_result [OF ok1 b] rb cb obtain a' where 1: "objs wb p = Some (ChangesObj vb a')"
      by auto
    from after_result [OF ok1 a] cc obtain va where ra: "ra = Inr va"
      and ca: "cached_changes (ent wa) = Some p" and oa: "objs wa = objs w1" by auto
    from after_result [OF ok1 a] ra ca obtain b' where 2: "objs wa p = Some (ChangesObj b' va)"
      by auto
    from 1 2 ob oa have "objs w1 p = Some (ChangesObj vb va)" by simp
    with b a rb ra ob oa
    show "\<exists>b a. objs w1 p = Some (ChangesObj b a)
                  \<and> fst (before w1) = Inr b \<and> fst (after w1) = Inr a
                  \<and> objs (snd (before w1)) = objs w1 \<and> objs (snd (after w1)) = objs w1"
      by simp
  }
qed

lemma built: "\<not> isl x \<Longrightarrow> x = Inr (projr x)"
  by (cases x) simp_all

lemma returned: "fst x = Inr v \<Longrightarrow> x = (Inr v, snd x)"
  by (cases x) simp

text \<open>
  C8 on the entry of a deleted invite: the first access returns the object at address
  2, and so does an access after \<^verbatim>\<open>before\<close>, \<^verbatim>\<open>target\<close> and \<^verbatim>\<open>changes\<close> have been read.
\<close>

theorem C8_witness:
  "\<not> isl (from_data env0 (payload0 42 None (Some invite_changes)))
   \<and> cached_changes (ent (world0 42 invite_changes)) = None
   \<and> fst (changes (world0 42 invite_changes)) = Inr 2
   \<and> changes_raw (ent (snd (changes (world0 42 invite_changes)))) = None
   \<and> fst (changes (fold do_access [GetBefore, GetTarget, GetChanges]
                    (snd (changes (world0 42 invite_changes))))) = Inr 2
   \<and> changes_raw (ent (fold do_access [GetBefore, GetTarget, GetChanges]
                    (snd (changes (world0 42 invite_changes))))) = None"
proof -
  let ?pl = "payload0 42 None (Some invite_changes)"
  let ?w = "world0 42 invite_changes"
  have ni: "\<not> isl (from_data env0 ?pl)" by code_simp
  then have fd: "from_data env0 ?pl = Inr (projr (from_data env0 ?pl))" by (rule built)
  have w: "?w = fold do_access [] (new_world (projr (from_data env0 ?pl)) Map.empty 0)"
    by (simp add: world0_def)
  have cn: "cached_changes (ent ?w) = None" by code_simp
  have f: "fst (changes ?w) = Inr 2" by code_simp
  then have ch: "changes ?w = (Inr 2, snd (changes ?w))" by (rule returned)
  note t = C8_changes_memoized [OF fd w cn ch]
  from t have gone: "changes_raw (ent (snd (changes ?w))) = None" by simp
  from t have "changes (fold do_access [GetBefore, GetTarget, GetChanges] (snd (changes ?w)))
                 = (Inr 2, fold do_access [GetBefore, GetTarget, GetChanges] (snd (changes ?w)))
             \<and> changes_raw (ent (fold do_access [GetBefore, GetTarget, GetChanges]
                    (snd (changes ?w)))) = None"
    by blast
  with ni cn f gone show ?thesis by simp
qed

subsection \<open>The invite target\<close>

lemma invite_of_fields:
  assumes "map_of d ''max_age'' = Some ma" and "map_of d ''max_uses'' = Some mu"
    and "map_of d ''code'' = Some co" and "map_of d ''temporary'' = Some te"
    and "map_of d ''uses'' = Some us" and "map_of d ''channel'' = Some ch"
  shows "invite_of d =
           Inr (VInvite [(''max_age'', ma), (''max_uses'', mu), (''code'', co),
                         (''temporary'', te), (''uses'', us)] ch (map_of d ''inviter''))"
  using assms by (cases "map_of d ''inviter''") (simp_all add: invite_of_def getattr_def)

lemma target_invite:
  assumes "target_type (action (ent w)) = Some ''invite''"
    and "cached_target (ent w) = None"
    and "(if is_action (ent w) ''invite_delete'' then before w else after w) = (Inr p, w1)"
    and "objs w1 p = Some (DiffObj d)"
  shows "fst (target w) = invite_of d"
proof -
  from assms(1) have "target_body w = convert_target_invite w"
    by (simp add: target_body_def Let_def)
  also from assms(3,4) have "\<dots> = (invite_of d, w1)"
    by (simp add: convert_target_invite_def)
  finally have "target_body w = (invite_of d, w1)" .
  with assms(2) show ?thesis
    by (cases "invite_of d") (simp_all add: target_def cached_property_def)
qed

text \<open>
  Claim C7. For an entry whose action has the target type \<^verbatim>\<open>invite\<close>, the first access to
  \<^verbatim>\<open>target\<close> gives the invite rebuilt from the diff that \<^verbatim>\<open>before\<close> returns when the
  action is \<^verbatim>\<open>invite_delete\<close> and from the diff that \<^verbatim>\<open>after\<close> returns otherwise. When
  that diff has \<^verbatim>\<open>max_age\<close>, \<^verbatim>\<open>max_uses\<close>, \<^verbatim>\<open>code\<close>, \<^verbatim>\<open>temporary\<close>, \<^verbatim>\<open>uses\<close> and \<^verbatim>\<open>channel\<close>, the
  invite is built from these values, and \<^verbatim>\<open>inviter\<close> is assigned exactly when the diff has
  the attribute \<^verbatim>\<open>inviter\<close>; without it the access returns all the same.
\<close>

theorem C7_invite_target:
  assumes "target_type (action (ent w)) = Some ''invite''"
    and "cached_target (ent w) = None"
    and "before w = (Inr pb, wb)" and "objs wb pb = Some (DiffObj db)"
    and "after w = (Inr pa, wa)" and "objs wa pa = Some (DiffObj da)"
  shows "fst (target w) = invite_of (if is_action (ent w) ''invite_delete'' then db else da)
       \<and> (\<forall>d ma mu co te us ch.
             map_of d ''max_age'' = Some ma \<and> map_of d ''max_uses'' = Some mu
             \<and> map_of d ''code'' = Some co \<and> map_of d ''temporary'' = Some te
             \<and> map_of d ''uses'' = Some us \<and> map_of d ''channel'' = Some ch \<longrightarrow>
             invite_of d =
               Inr (VInvite [(''max_age'', ma), (''max_uses'', mu), (''code'', co),
                             (''temporary'', te), (''uses'', us)] ch (map_of d ''inviter'')))"
proof (intro conjI allI impI)
  show "fst (target w) = invite_of (if is_action (ent w) ''invite_delete'' then db else da)"
  proof (cases "is_action (ent w) ''invite_delete''")
    case True
    with assms(3) have "(if is_action (ent w) ''invite_delete'' then before w else after w)
                          = (Inr pb, wb)" by simp
    from target_invite [OF assms(1,2) this assms(4)] True show ?thesis by simp
  next
    case False
    with assms(5) have "(if is_action (ent w) ''invite_delete'' then before w else after w)
                          = (Inr pa, wa)" by simp
    from target_invite [OF assms(1,2) this assms(6)] False show ?thesis by simp
  qed
next
  fix d :: bag and ma mu co te us ch
  assume "map_of d ''max_age'' = Some ma \<and> map_of d ''max_uses'' = Some mu
             \<and> map_of d ''code'' = Some co \<and> map_of d ''temporary'' = Some te
             \<and> map_of d ''uses'' = Some us \<and> map_of d ''channel'' = Some ch"
  then show "invite_of d =
               Inr (VInvite [(''max_age'', ma), (''max_uses'', mu), (''code'', co),
                             (''temporary'', te), (''uses'', us)] ch (map_of d ''inviter''))"
    by (intro invite_of_fields) simp_all
qed

text \<open>
  C7 on the deleted invite (rebuilt from the \<^verbatim>\<open>before\<close> diff, with its inviter) and on a
  created invite without inviter (rebuilt from the \<^verbatim>\<open>after\<close> diff).
\<close>

theorem C7_witness:
  "fst (target (world0 42 invite_changes))
     = Inr (VInvite [(''max_age'', VInt 60), (''max_uses'', VInt 0), (''code'', VStr ''abc''),
                     (''temporary'', VBool False), (''uses'', VInt 3)]
              (VEntity Channel 0) (Some (VEntity Member 0)))
   \<and> fst (target (world0 40 invite_created))
     = Inr (VInvite [(''max_age'', VInt 0), (''max_uses'', VInt 5), (''code'', VStr ''xyz''),
                     (''temporary'', VBool True), (''uses'', VInt 0)]
              (VObject 11 None) None)"
proof -
  let ?w = "world0 42 invite_changes"
  let ?db = "[(''channel'', VEntity Channel 0), (''code'', VStr ''abc''),
              (''inviter'', VEntity Member 0), (''max_age'', VInt 60), (''max_uses'', VInt 0),
              (''temporary'', VBool False), (''uses'', VInt 3)]"
  let ?da = "[(''channel'', VNone), (''code'', VNone), (''inviter'', VNone),
              (''max_age'', VNone), (''max_uses'', VNone), (''temporary'', VNone),
              (''uses'', VNone)]"
  have tt: "target_type (action (ent ?w)) = Some ''invite''"
    and ct: "cached_target (ent ?w) = None"
    and del: "is_action (ent ?w) ''invite_delete''"
    by code_simp+
  have "fst (before ?w) = Inr 0" by code_simp
  then have b: "before ?w = (Inr 0, snd (before ?w))" by (rule returned)
  have ob: "objs (snd (before ?w)) 0 = Some (DiffObj ?db)" by code_simp
  have "fst (after ?w) = Inr 1" by code_simp
  then have a: "after ?w = (Inr 1, snd (after ?w))" by (rule returned)
  have oa: "objs (snd (after ?w)) 1 = Some (DiffObj ?da)" by code_simp
  note t = C7_invite_target [OF tt ct b ob a oa]
  from t del have 1: "fst (target ?w) = invite_of ?db" by simp
  have f: "map_of ?db ''max_age'' = Some (VInt 60) \<and> map_of ?db ''max_uses'' = Some (VInt 0)
             \<and> map_of ?db ''code'' = Some (VStr ''abc'')
             \<and> map_of ?db ''temporary'' = Some (VBool False)
             \<and> map_of ?db ''uses'' = Some (VInt 3)
             \<and> map_of ?db ''channel'' = Some (VEntity Channel 0)"
    by simp
  from t have "\<forall>d ma mu co te us ch.
             map_of d ''max_age'' = Some ma \<and> map_of d ''max_uses'' = Some mu
             \<and> map_of d ''code'' = Some co \<and> map_of d ''temporary'' = Some te
             \<and> map_of d ''uses'' = Some us \<and> map_of d ''channel'' = Some ch \<longrightarrow>
             invite_of d =
               Inr (VInvite [(''max_age'', ma), (''max_uses'', mu), (''code'', co),
                             (''temporary'', te), (''uses'', us)] ch (map_of d ''inviter''))"
    by (rule conjunct2)
  from this [rule_format, OF f] have 2: "invite_of ?db =
     Inr (VInvite [(''max_age'', VInt 60), (''max_uses'', VInt 0), (''code'', VStr ''abc''),
                     (''temporary'', VBool False), (''uses'', VInt 3)]
              (VEntity Channel 0) (Some (VEntity Member 0)))"
    by simp
  let ?v = "world0 40 invite_created"
  let ?eb = "[(''channel'', VNone), (''code'', VNone),
              (''max_age'', VNone), (''max_uses'', VNone), (''temporary'', VNone),
              (''uses'', VNone)]"
  let ?ea = "[(''channel'', VObject 11 None), (''code'', VStr ''xyz''),
              (''max_age'', VInt 0), (''max_uses'', VInt 5), (''temporary'', VBool True),
              (''uses'', VInt 0)]"
  have tt': "target_type (action (ent ?v)) = Some ''invite''"
    and ct': "cached_target (ent ?v) = None"
    and del': "\<not> is_action (ent ?v) ''invite_delete''"
    by code_simp+
  have "fst (before ?v) = Inr 0" by code_simp
  then have b': "before ?v = (Inr 0, snd (before ?v))" by (rule returned)
  have ob': "objs (snd (before ?v)) 0 = Some (DiffObj ?eb)" by code_simp
  have "fst (after ?v) = Inr 1" by code_simp
  then have a': "after ?v = (Inr 1, snd (after ?v))" by (rule returned)
  have oa': "objs (snd (after ?v)) 1 = Some (DiffObj ?ea)" by code_simp
  note t' = C7_invite_target [OF tt' ct' b' ob' a' oa']
  from t' del' have 3: "fst (target ?v) = invite_of ?ea" by simp
  have 4: "invite_of ?ea =
     Inr (VInvite [(''max_age'', VInt 0), (''max_uses'', VInt 5), (''code'', VStr ''xyz''),
                     (''temporary'', VBool True), (''uses'', VInt 0)]
              (VObject 11 None) None)"
    by code_simp
  from 1 2 3 4 show ?thesis by simp
qed

text \<open>
  C9 on the entry of the deleted invite after \<^verbatim>\<open>after\<close> has been read: \<^verbatim>\<open>before\<close> returns
  address 0, \<^verbatim>\<open>changes\<close> then returns the object at address 2, which holds 0 as its
  \<^verbatim>\<open>before\<close>; and on the new entry, where \<^verbatim>\<open>changes\<close> is read first.
\<close>

theorem C9_witness:
  "fst (before (fold do_access [GetAfter] (world0 42 invite_changes))) = Inr 0
   \<and> fst (changes (snd (before (fold do_access [GetAfter] (world0 42 invite_changes))))) = Inr 2
   \<and> (\<exists>a. objs (snd (before (fold do_access [GetAfter] (world0 42 invite_changes)))) 2
            = Some (ChangesObj 0 a))
   \<and> fst (changes (world0 42 invite_changes)) = Inr 2
   \<and> (\<exists>b a. objs (snd (changes (world0 42 invite_changes))) 2 = Some (ChangesObj b a)
            \<and> fst (before (snd (changes (world0 42 invite_changes)))) = Inr b
            \<and> fst (after (snd (changes (world0 42 invite_changes)))) = Inr a)"
proof -
  let ?pl = "payload0 42 None (Some invite_changes)"
  let ?init = "world0 42 invite_changes"
  let ?w = "fold do_access [GetAfter] ?init"
  have ni: "\<not> isl (from_data env0 ?pl)" by code_simp
  then have fd: "from_data env0 ?pl = Inr (projr (from_data env0 ?pl))" by (rule built)
  have w: "?w = fold do_access [GetAfter] (new_world (projr (from_data env0 ?pl)) Map.empty 0)"
    by (simp add: world0_def)
  have w0: "?init = fold do_access [] (new_world (projr (from_data env0 ?pl)) Map.empty 0)"
    by (simp add: world0_def)
  have fb: "fst (before ?w) = Inr 0" by code_simp
  then have b: "before ?w = (Inr 0, snd (before ?w))" by (rule returned)
  have fc: "fst (changes (snd (before ?w))) = Inr 2" by code_simp
  from C9_before_after_are_changes_fields [OF fd w, THEN conjunct1, rule_format, OF b]
  obtain p a where "changes (snd (before ?w)) = (Inr p, snd (before ?w))"
    and "objs (snd (before ?w)) p = Some (ChangesObj 0 a)" by blast
  with fc have 1: "\<exists>a. objs (snd (before ?w)) 2 = Some (ChangesObj 0 a)" by auto
  have fc0: "fst (changes ?init) = Inr 2" by code_simp
  then have c0: "changes ?init = (Inr 2, snd (changes ?init))" by (rule returned)
  from C9_before_after_are_changes_fields [OF fd w0, THEN conjunct2, THEN conjunct2,
      rule_format, OF c0]
  have 2: "\<exists>b a. objs (snd (changes ?init)) 2 = Some (ChangesObj b a)
            \<and> fst (before (snd (changes ?init))) = Inr b
            \<and> fst (after (snd (changes ?init))) = Inr a" by blast
  from fb fc 1 fc0 2 show ?thesis by blast
qed

end
